theory Spec2Isabelle
  imports Main "HOL-Library.Word" "HOL-Library.Monad_Syntax"
begin

section \<open>Data model\<close>

text \<open>
  The C source \<^verbatim>\<open>samt5.c\<close> implements a set of \<^verbatim>\<open>int32_t\<close> values stored in a sorted
  array. Unsigned quantities (\<^verbatim>\<open>uint32_t\<close>: capacities, usages, array indices) are 32-bit
  words whose arithmetic wraps around. Stored values (\<^verbatim>\<open>int32_t\<close>) are 32-bit words as
  well, compared through their two's complement reading (\<open><s\<close>, that is \<open>sint a < sint b\<close>).
\<close>

type_synonym uint32_t = "32 word"
type_synonym int32_t = "32 word"

definition INT32_MIN :: int32_t where
  "INT32_MIN = 0x80000000"

text \<open>
  A pointer to an array of \<^verbatim>\<open>int32_t\<close> is either \<^verbatim>\<open>NULL\<close> or owns a buffer; the length
  of the list is the dimension of the allocated array.
\<close>

datatype int32_ptr = NULL | Array "int32_t list"

text \<open>
  Modelled from the spec: the header \<^verbatim>\<open>CSet.h\<close>, which declares the structure, is not part
  of the sources. The spec gives the three attributes (capacity, count, storage); the field
  names are the ones \<^verbatim>\<open>samt5.c\<close> uses (\<^verbatim>\<open>pSet->Capacity\<close>, \<^verbatim>\<open>pSet->Usage\<close>,
  \<^verbatim>\<open>pSet->Data\<close>).
\<close>

record CSet =
  Capacity :: uint32_t
  Usage :: uint32_t
  Data :: int32_ptr

text \<open>
  Reading or writing an array outside its bounds, or through \<^verbatim>\<open>NULL\<close>, is undefined
  behaviour in C. Every array access of the model is checked, and a function whose execution
  meets undefined behaviour returns \<open>None\<close>.
\<close>

fun array_get :: "int32_ptr \<Rightarrow> nat \<Rightarrow> int32_t option" where
  "array_get NULL i = None"
| "array_get (Array xs) i = (if i < length xs then Some (xs ! i) else None)"

fun array_set :: "int32_ptr \<Rightarrow> nat \<Rightarrow> int32_t \<Rightarrow> int32_ptr option" where
  "array_set NULL i x = None"
| "array_set (Array xs) i x = (if i < length xs then Some (Array (xs[i := x])) else None)"

text \<open>
  The elements of a set: the slots \<open>[0, Usage)\<close> of its array.
\<close>

fun slots :: "int32_ptr \<Rightarrow> int32_t list" where
  "slots NULL = []"
| "slots (Array xs) = xs"

definition elements :: "CSet \<Rightarrow> int32_t list" where
  "elements s = take (unat (Usage s)) (slots (Data s))"

text \<open>
  A set is proper when (1) capacity 0 goes with an absent array and usage 0, (2) a positive
  capacity goes with an array of exactly that dimension, (3) the slots \<open>[0, Usage)\<close> are
  strictly ascending, and (4) the slots \<open>[Usage, Capacity)\<close> hold \<open>INT32_MIN\<close>.
  Conditions (1), (2) and (4) are those of the comment at the head of \<^verbatim>\<open>samt5.c\<close>;
  (3) is the ordering which the spec adds and on which the binary search relies.
\<close>

definition proper :: "CSet \<Rightarrow> bool" where
  "proper s =
     (case Data s of
        NULL \<Rightarrow> Capacity s = 0 \<and> Usage s = 0
      | Array xs \<Rightarrow>
          0 < Capacity s \<and> length xs = unat (Capacity s) \<and> Usage s \<le> Capacity s \<and>
          sorted_wrt (<s) (take (unat (Usage s)) xs) \<and>
          list_all (\<lambda>x. x = INT32_MIN) (drop (unat (Usage s)) xs))"

section \<open>Allocation\<close>

text \<open>
  \<^verbatim>\<open>malloc\<close> is a parameter of every function that calls it: given the number of bytes
  it returns \<^verbatim>\<open>NULL\<close> (failure) or a fresh array whose contents are arbitrary. The byte
  count is computed in \<^verbatim>\<open>size_t\<close>, taken to be wide enough for \<open>4 * (2^32 - 1)\<close>; the
  element counts themselves are computed in \<^verbatim>\<open>uint32_t\<close> and wrap. \<^verbatim>\<open>free\<close> has no
  effect on the values the functions compute and is left out.
\<close>

definition sizeof_int32_t :: nat where
  "sizeof_int32_t = 4"

text \<open>An allocator is well behaved when a block of \<open>n\<close> bytes holds \<open>n div 4\<close> slots.\<close>

definition allocator :: "(nat \<Rightarrow> int32_ptr) \<Rightarrow> bool" where
  "allocator malloc \<longleftrightarrow> (\<forall>n xs. malloc n = Array xs \<longrightarrow> length xs = n div sizeof_int32_t)"

text \<open>
  Two allocators to run the functions on: one that always succeeds and hands out memory
  filled with the arbitrary value 7, and one that always fails.
\<close>

definition malloc_7 :: "nat \<Rightarrow> int32_ptr" where
  "malloc_7 n = Array (replicate (n div sizeof_int32_t) 7)"

definition malloc_fail :: "nat \<Rightarrow> int32_ptr" where
  "malloc_fail n = NULL"

text \<open>
  The loop \<^verbatim>\<open>while (i < capacity) { data[i] = INT32_MIN; i++; }\<close> that ends
  \<^verbatim>\<open>CSet_Insert\<close> (growth path), \<^verbatim>\<open>CSet_Intersection\<close> and \<^verbatim>\<open>CSet_SymDifference\<close>.
\<close>

function fill_tail :: "int32_ptr \<Rightarrow> uint32_t \<Rightarrow> uint32_t \<Rightarrow> int32_ptr option" where
  "fill_tail data capacity i =
     (if i < capacity then
        do { data' \<leftarrow> array_set data (unat i) INT32_MIN;
             fill_tail data' capacity (i + 1) }
      else Some data)"
  by pat_completeness auto
termination
  by (relation "measure (\<lambda>(data, capacity, i). unat (capacity - i))") (simp_all, unat_arith)

declare fill_tail.simps [simp del]

section \<open>Init\<close>

text \<open>
  The loop of \<^verbatim>\<open>CSet_Init\<close>:
  \<^verbatim>\<open>while (Sz > 0 && i < Sz) { pSet->Data[i] = INT32_MIN; i++; }\<close>
\<close>

function init_fill :: "int32_ptr \<Rightarrow> uint32_t \<Rightarrow> uint32_t \<Rightarrow> int32_ptr option" where
  "init_fill d Sz i =
     (if 0 < Sz \<and> i < Sz then
        do { d' \<leftarrow> array_set d (unat i) INT32_MIN;
             init_fill d' Sz (i + 1) }
      else Some d)"
  by pat_completeness auto
termination
  by (relation "measure (\<lambda>(d, Sz, i). unat (Sz - i))") (simp_all, unat_arith)

declare init_fill.simps [simp del]

text \<open>
  \<^verbatim>\<open>CSet_Init\<close>. The argument is the object \<^verbatim>\<open>pSet\<close> points to, \<open>None\<close> for the
  null pointer; the object may be raw, and none of its fields is read.
\<close>

definition CSet_Init :: "(nat \<Rightarrow> int32_ptr) \<Rightarrow> CSet option \<Rightarrow> uint32_t \<Rightarrow> (bool \<times> CSet option) option" where
  "CSet_Init malloc pSet Sz =
     (case pSet of
        None \<Rightarrow> Some (False, None)
      | Some s0 \<Rightarrow>
          let s = s0\<lparr>Capacity := Sz\<rparr>;
              s = s\<lparr>Usage := 0\<rparr>
          in if 0 < Sz then
               let s = s\<lparr>Data := malloc (unat Sz * sizeof_int32_t)\<rparr>
               in if Data s = NULL then Some (False, Some (s\<lparr>Capacity := 0\<rparr>))
                  else do { d \<leftarrow> init_fill (Data s) Sz 0;
                            Some (True, Some (s\<lparr>Data := d\<rparr>)) }
             else
               let s = s\<lparr>Data := NULL\<rparr>
               in do { d \<leftarrow> init_fill (Data s) Sz 0;
                       Some (True, Some (s\<lparr>Data := d\<rparr>)) })"

section \<open>Insert\<close>

text \<open>
  The search loop of the in-place path. The flag is true when the loop left the function
  through \<^verbatim>\<open>return false\<close> (the value is already there); otherwise the index is the
  position at which the loop stopped.
\<close>

function insert_scan :: "int32_ptr \<Rightarrow> uint32_t \<Rightarrow> int32_t \<Rightarrow> uint32_t \<Rightarrow> (bool \<times> uint32_t) option" where
  "insert_scan d usage v i =
     (if i < usage then
        do { x \<leftarrow> array_get d (unat i);
             if x = v then Some (True, i)
             else if x <s v then insert_scan d usage v (i + 1)
             else Some (False, i) }
      else Some (False, i))"
  by pat_completeness auto
termination
  by (relation "measure (\<lambda>(d, usage, v, i). unat (usage - i))") (simp_all, unat_arith)

declare insert_scan.simps [simp del]

text \<open>
  The loop that makes room:
  \<^verbatim>\<open>while (i < j) { pSet->Data[j] = pSet->Data[j - 1]; j--; }\<close>
\<close>

function insert_shift :: "int32_ptr \<Rightarrow> uint32_t \<Rightarrow> uint32_t \<Rightarrow> int32_ptr option" where
  "insert_shift d i j =
     (if i < j then
        do { x \<leftarrow> array_get d (unat (j - 1));
             d' \<leftarrow> array_set d (unat j) x;
             insert_shift d' i (j - 1) }
      else Some d)"
  by pat_completeness auto
termination
  by (relation "measure (\<lambda>(d, i, j). unat j)") (simp_all, unat_arith)

declare insert_shift.simps [simp del]

text \<open>
  The loop of the growth path that fills the new array from the old one and the new value:
  \<^verbatim>\<open>while (i < pSet->Usage + 1) {
     if (j < pSet->Usage && pSet->Data[j] < Value) { NewData[i] = pSet->Data[j]; j++; }
     else { NewData[i] = Value; }
     i++; }\<close>
  It returns the new array and the final \<^verbatim>\<open>i\<close>.
\<close>

function insert_merge :: "int32_ptr \<Rightarrow> uint32_t \<Rightarrow> int32_t \<Rightarrow> int32_ptr \<Rightarrow> uint32_t \<Rightarrow> uint32_t \<Rightarrow> (int32_ptr \<times> uint32_t) option" where
  "insert_merge d usage v NewData i j =
     (if i < usage + 1 then
        do { c \<leftarrow> (if j < usage then do { x \<leftarrow> array_get d (unat j); Some (x <s v) } else Some False);
             if c then
               do { x \<leftarrow> array_get d (unat j);
                    NewData' \<leftarrow> array_set NewData (unat i) x;
                    insert_merge d usage v NewData' (i + 1) (j + 1) }
             else
               do { NewData' \<leftarrow> array_set NewData (unat i) v;
                    insert_merge d usage v NewData' (i + 1) j } }
      else Some (NewData, i))"
  by pat_completeness auto
termination
  by (relation "measure (\<lambda>(d, usage, v, NewData, i, j). unat (usage + 1 - i))") (simp_all, unat_arith+)

declare insert_merge.simps [simp del]

definition CSet_Insert :: "(nat \<Rightarrow> int32_ptr) \<Rightarrow> CSet \<Rightarrow> int32_t \<Rightarrow> (bool \<times> CSet) option" where
  "CSet_Insert malloc s v =
     (if Data s = NULL then Some (False, s)
      else if Usage s + 1 < Capacity s then
        do { (dup, i) \<leftarrow> insert_scan (Data s) (Usage s) v 0;
             if dup then Some (False, s)
             else
               do { d \<leftarrow> insert_shift (Data s) i (Usage s + 1);
                    d' \<leftarrow> array_set d (unat i) v;
                    Some (True, s\<lparr>Data := d', Usage := Usage s + 1\<rparr>) } }
      else
        let capacity = Capacity s;
            capacity = (if capacity \<le> 0 then 1 else capacity);
            NewData = malloc (unat (capacity * 2) * sizeof_int32_t)
        in if NewData = NULL then Some (False, s)
           else
             let s = s\<lparr>Capacity := capacity * 2\<rparr>
             in do { (NewData', i) \<leftarrow> insert_merge (Data s) (Usage s) v NewData 0 0;
                     NewData'' \<leftarrow> fill_tail NewData' (Capacity s) i;
                     Some (True, s\<lparr>Data := NewData'', Usage := Usage s + 1\<rparr>) })"

section \<open>Remove\<close>

text \<open>
  The search loop of \<^verbatim>\<open>CSet_Remove\<close>: it returns the flag \<^verbatim>\<open>found\<close> and the index
  \<^verbatim>\<open>i\<close> at which the loop stopped.
\<close>

function remove_scan :: "int32_ptr \<Rightarrow> uint32_t \<Rightarrow> int32_t \<Rightarrow> uint32_t \<Rightarrow> (bool \<times> uint32_t) option" where
  "remove_scan d usage v i =
     (if i < usage then
        do { x \<leftarrow> array_get d (unat i);
             if x = v then Some (True, i) else remove_scan d usage v (i + 1) }
      else Some (False, i))"
  by pat_completeness auto
termination
  by (relation "measure (\<lambda>(d, usage, v, i). unat (usage - i))") (simp_all, unat_arith)

declare remove_scan.simps [simp del]

text \<open>
  The loop that moves the slots behind the removed one to the left:
  \<^verbatim>\<open>while (i <= pSet->Usage - 2) { pSet->Data[i] = pSet->Data[i + 1]; i++; }\<close>
  With \<^verbatim>\<open>Usage\<close> below 2 the bound \<^verbatim>\<open>pSet->Usage - 2\<close> wraps around and the loop has
  no reason to stop, so the loop is a partial function: \<open>None\<close> also stands for a loop
  that does not return.
\<close>

partial_function (option) remove_shift :: "int32_ptr \<Rightarrow> uint32_t \<Rightarrow> uint32_t \<Rightarrow> int32_ptr option" where
  "remove_shift d usage i =
     (if i \<le> usage - 2 then
        do { x \<leftarrow> array_get d (unat (i + 1));
             d' \<leftarrow> array_set d (unat i) x;
             remove_shift d' usage (i + 1) }
      else Some d)"

declare remove_shift.simps [code]

text \<open>
  \<^verbatim>\<open>CSet_Remove\<close> itself. After the shift it decrements \<^verbatim>\<open>Usage\<close>, calls itself on
  the same set and value, and only then writes \<^verbatim>\<open>INT32_MIN\<close> at index \<^verbatim>\<open>pSet->Usage\<close>.
\<close>

function CSet_Remove :: "CSet \<Rightarrow> int32_t \<Rightarrow> (bool \<times> CSet) option" where
  "CSet_Remove s v =
     do { (found, i) \<leftarrow> remove_scan (Data s) (Usage s) v 0;
          if found \<and> i = Usage s - 1 then
            do { d \<leftarrow> array_set (Data s) (unat i) INT32_MIN;
                 Some (found, s\<lparr>Data := d, Usage := Usage s - 1\<rparr>) }
          else if found then
            do { d \<leftarrow> remove_shift (Data s) (Usage s) i;
                 (r, s') \<leftarrow> CSet_Remove (s\<lparr>Data := d, Usage := Usage s - 1\<rparr>) v;
                 d' \<leftarrow> array_set (Data s') (unat (Usage s')) INT32_MIN;
                 Some (found, s'\<lparr>Data := d'\<rparr>) }
          else Some (found, s) }"
  by pat_completeness auto
termination
proof (relation "measure (\<lambda>(s, v). unat (Usage s))")
  show "wf (measure (\<lambda>(s, v). unat (Usage s)))"
    by simp
next
  fix s :: CSet and v :: int32_t and x :: "bool \<times> uint32_t" and found :: bool and i :: uint32_t
    and d :: int32_ptr
  assume scan: "remove_scan (Data s) (Usage s) v 0 = Some x" and x: "(found, i) = x"
    and found: "found"
  have "remove_scan d' u v j = Some (True, k) \<Longrightarrow> k < u" for d' u j k
  proof (induction d' u v j rule: remove_scan.induct)
    case (1 d' u v j)
    then show ?case
      by (subst (asm) (2) remove_scan.simps) (auto split: if_splits bind_splits)
  qed
  with scan x found have "i < Usage s"
    by auto
  then have "unat (Usage s - 1) < unat (Usage s)"
    by unat_arith
  then show "((s\<lparr>Data := d, Usage := Usage s - 1\<rparr>, v), s, v) \<in> measure (\<lambda>(s, v). unat (Usage s))"
    by simp
qed

declare CSet_Remove.simps [simp del]

text \<open>
  The number of invocations of \<^verbatim>\<open>CSet_Remove\<close> that one call causes, itself included.
  The function follows the control flow of \<^verbatim>\<open>CSet_Remove\<close> statement by statement and
  counts the invocations instead of returning the set.
\<close>

function CSet_Remove_calls :: "CSet \<Rightarrow> int32_t \<Rightarrow> nat option" where
  "CSet_Remove_calls s v =
     do { (found, i) \<leftarrow> remove_scan (Data s) (Usage s) v 0;
          if found \<and> i = Usage s - 1 then
            do { d \<leftarrow> array_set (Data s) (unat i) INT32_MIN;
                 Some 1 }
          else if found then
            do { d \<leftarrow> remove_shift (Data s) (Usage s) i;
                 n \<leftarrow> CSet_Remove_calls (s\<lparr>Data := d, Usage := Usage s - 1\<rparr>) v;
                 (r, s') \<leftarrow> CSet_Remove (s\<lparr>Data := d, Usage := Usage s - 1\<rparr>) v;
                 d' \<leftarrow> array_set (Data s') (unat (Usage s')) INT32_MIN;
                 Some (1 + n) }
          else Some 1 }"
  by pat_completeness auto
termination
proof (relation "measure (\<lambda>(s, v). unat (Usage s))")
  show "wf (measure (\<lambda>(s, v). unat (Usage s)))"
    by simp
next
  fix s :: CSet and v :: int32_t and x :: "bool \<times> uint32_t" and found :: bool and i :: uint32_t
    and d :: int32_ptr
  assume scan: "remove_scan (Data s) (Usage s) v 0 = Some x" and x: "(found, i) = x"
    and found: "found"
  have "remove_scan d' u v j = Some (True, k) \<Longrightarrow> k < u" for d' u j k
  proof (induction d' u v j rule: remove_scan.induct)
    case (1 d' u v j)
    then show ?case
      by (subst (asm) (2) remove_scan.simps) (auto split: if_splits bind_splits)
  qed
  with scan x found have "i < Usage s"
    by auto
  then have "unat (Usage s - 1) < unat (Usage s)"
    by unat_arith
  then show "((s\<lparr>Data := d, Usage := Usage s - 1\<rparr>, v), s, v) \<in> measure (\<lambda>(s, v). unat (Usage s))"
    by simp
qed

declare CSet_Remove_calls.simps [simp del]



section \<open>Contains\<close>

text \<open>
  The binary search keeps its bounds in \<^verbatim>\<open>int32_t\<close> variables \<^verbatim>\<open>min\<close>, \<^verbatim>\<open>max\<close> and
  \<^verbatim>\<open>mid\<close>. They are modelled by their integer values. Signed overflow is undefined
  behaviour in C: an arithmetic result outside the range of \<^verbatim>\<open>int32_t\<close> is \<open>None\<close>.
  The division of C truncates towards zero.
\<close>

definition int32_result :: "int \<Rightarrow> int option" where
  "int32_result x = (if - 2147483648 \<le> x \<and> x \<le> 2147483647 then Some x else None)"

definition c_div :: "int \<Rightarrow> int \<Rightarrow> int" where
  "c_div a b = sgn a * sgn b * (\<bar>a\<bar> div \<bar>b\<bar>)"

text \<open>
  The loop of \<^verbatim>\<open>CSet_Contains\<close>, with the values of \<^verbatim>\<open>min\<close>, \<^verbatim>\<open>max\<close> and \<^verbatim>\<open>mid\<close> at
  the loop head as the arguments \<open>min_idx\<close>, \<open>max_idx\<close> and \<open>mid\<close>. An index is negative or beyond the array only through
  undefined behaviour.
\<close>

function contains_loop :: "int32_ptr \<Rightarrow> int32_t \<Rightarrow> int \<Rightarrow> int \<Rightarrow> int \<Rightarrow> bool option" where
  "contains_loop d v min_idx max_idx mid =
     (if min_idx \<le> max_idx then
        do { x \<leftarrow> (if 0 \<le> mid then array_get d (nat mid) else None);
             if x = v then Some True
             else
               do { max_idx' \<leftarrow> (if v <s x then int32_result (mid - 1) else Some max_idx);
                    min_idx' \<leftarrow> (if v <s x then Some min_idx
                             else if x <s v then int32_result (mid + 1) else Some min_idx);
                    sum \<leftarrow> int32_result (min_idx' + max_idx');
                    contains_loop d v min_idx' max_idx' (c_div sum 2) } }
      else Some False)"
  by pat_completeness auto
termination
proof (relation "measures [\<lambda>(d, v, min_idx, max_idx, mid). if mid = c_div (min_idx + max_idx) 2 then 0 else 1,
                           \<lambda>(d, v, min_idx, max_idx, mid). nat (max_idx - min_idx + 1)]")
  show "wf (measures [\<lambda>(d, v, min_idx, max_idx, mid). if mid = c_div (min_idx + max_idx) 2 then 0 else 1,
                      \<lambda>(d, v, min_idx, max_idx, mid). nat (max_idx - min_idx + 1 :: int)])"
    by simp
next
  fix d :: int32_ptr and v x :: int32_t and min_idx max_idx mid max_idx' min_idx' sum :: int
  assume le: "min_idx \<le> max_idx" and neq: "x \<noteq> v"
    and max_idx': "(if v <s x then int32_result (mid - 1) else Some max_idx) = Some max_idx'"
    and min_idx': "(if v <s x then Some min_idx else if x <s v then int32_result (mid + 1) else Some min_idx)
                 = Some min_idx'"
    and sum: "int32_result (min_idx' + max_idx') = Some sum"
  have sum_eq: "sum = min_idx' + max_idx'"
    using sum by (simp add: int32_result_def split: if_splits)
  have order: "v <s x \<or> x <s v"
    using neq signed.less_linear [of v x] by auto
  have mid_bounds: "min_idx \<le> c_div (min_idx + max_idx) 2 \<and> c_div (min_idx + max_idx) 2 \<le> max_idx"
    using le by (auto simp: c_div_def sgn_if)
  have step: "mid = c_div (min_idx + max_idx) 2 \<Longrightarrow> nat (max_idx' - min_idx' + 1) < nat (max_idx - min_idx + 1)"
    using max_idx' min_idx' order mid_bounds le
    by (auto simp: int32_result_def word_sless_alt split: if_splits)
  show "((d, v, min_idx', max_idx', c_div sum 2), d, v, min_idx, max_idx, mid)
          \<in> measures [\<lambda>(d, v, min_idx, max_idx, mid). if mid = c_div (min_idx + max_idx) 2 then 0 else 1,
                        \<lambda>(d, v, min_idx, max_idx, mid). nat (max_idx - min_idx + 1)]"
    using step by (simp add: sum_eq)
qed

declare contains_loop.simps [simp del]

text \<open>
  \<^verbatim>\<open>int32_t max = pSet->Usage - 1;\<close> converts a \<^verbatim>\<open>uint32_t\<close> to \<^verbatim>\<open>int32_t\<close>: the
  value is kept when it fits and is otherwise implementation-defined; the model takes the
  two's complement reading (\<open>sint\<close>), as compilers for two's complement machines do.
\<close>

definition CSet_Contains :: "CSet \<Rightarrow> int32_t \<Rightarrow> bool option" where
  "CSet_Contains s v =
     (if Usage s = 0 then Some False
      else
        let max_idx = sint (Usage s - 1);
            min_idx = 0
        in do { sum \<leftarrow> int32_result (min_idx + max_idx);
                contains_loop (Data s) v min_idx max_idx (c_div sum 2) })"

section \<open>Subset test\<close>

function subset_loop :: "CSet \<Rightarrow> CSet \<Rightarrow> uint32_t \<Rightarrow> uint32_t \<Rightarrow> bool option" where
  "subset_loop A B a b =
     (if a < Usage A \<and> b < Usage B then
        do { x \<leftarrow> array_get (Data A) (unat a);
             y \<leftarrow> array_get (Data B) (unat b);
             if y <s x then
               (if b = Usage B - 1 then Some False else subset_loop A B (a + 1) b)
             else if x = y then subset_loop A B (a + 1) (b + 1)
             else Some False }
      else Some (\<not> a < Usage A))"
  by pat_completeness auto
termination
proof -
  have dec: "unat (u - (k + 1)) < unat (u - k)" if "k < u" for k u :: uint32_t
    using that by unat_arith
  show ?thesis
    by (relation "measure (\<lambda>(A, B, a, b). unat (Usage A - a))")
       (auto simp: dec intro: add_less_le_mono add_le_less_mono add_strict_mono)
qed

declare subset_loop.simps [simp del]

definition CSet_isSubsetOf :: "CSet \<Rightarrow> CSet \<Rightarrow> bool option" where
  "CSet_isSubsetOf A B =
     (if Usage B < Usage A then Some False
      else subset_loop A B 0 0)"

section \<open>Operations on several sets\<close>

text \<open>
  \<^verbatim>\<open>CSet_Intersection\<close>, \<^verbatim>\<open>CSet_SymDifference\<close> and \<^verbatim>\<open>CSet_Copy\<close> take several
  pointers to sets, which may be equal. The sets live in a store that maps an address to
  the object at that address; a function reads and writes the store through its pointers in
  the order of the source.
\<close>

type_synonym CSet_ptr = nat
type_synonym store = "CSet_ptr \<Rightarrow> CSet"

subsection \<open>Intersection\<close>

function inter_loop :: "CSet \<Rightarrow> CSet \<Rightarrow> int32_ptr \<Rightarrow> uint32_t \<Rightarrow> uint32_t \<Rightarrow> uint32_t \<Rightarrow> (int32_ptr \<times> uint32_t) option" where
  "inter_loop A B data i a b =
     (if a < Usage A \<and> b < Usage B then
        do { x \<leftarrow> array_get (Data A) (unat a);
             y \<leftarrow> array_get (Data B) (unat b);
             if x <s y then inter_loop A B data i (a + 1) b
             else if y <s x then inter_loop A B data i a (b + 1)
             else
               do { data' \<leftarrow> array_set data (unat i) x;
                    inter_loop A B data' (i + 1) (a + 1) b } }
      else Some (data, i))"
  by pat_completeness auto
termination
proof -
  have dec: "unat (u - (k + 1)) < unat (u - k)" if "k < u" for k u :: uint32_t
    using that by unat_arith
  show ?thesis
    by (relation "measure (\<lambda>(A, B, data, i, a, b). unat (Usage A - a) + unat (Usage B - b))")
       (auto simp: dec intro: add_less_le_mono add_le_less_mono add_strict_mono)
qed

declare inter_loop.simps [simp del]

definition CSet_Intersection :: "(nat \<Rightarrow> int32_ptr) \<Rightarrow> store \<Rightarrow> CSet_ptr \<Rightarrow> CSet_ptr \<Rightarrow> CSet_ptr \<Rightarrow> (bool \<times> store) option" where
  "CSet_Intersection malloc h pIntersection pA pB =
     (let capacity = (if Capacity (h pB) < Capacity (h pA) then Capacity (h pB) else Capacity (h pA));
          data = malloc (unat capacity * sizeof_int32_t)
      in if data = NULL then Some (False, h)
         else
           do { (data', i) \<leftarrow> inter_loop (h pA) (h pB) data 0 0 0;
                let h = h(pIntersection := (h pIntersection)\<lparr>Usage := i\<rparr>);
                data'' \<leftarrow> fill_tail data' capacity i;
                let h = h(pIntersection := (h pIntersection)\<lparr>Data := data''\<rparr>);
                let h = h(pIntersection := (h pIntersection)\<lparr>Capacity := capacity\<rparr>);
                Some (True, h) })"

subsection \<open>Symmetric difference\<close>

function sym_loop :: "CSet \<Rightarrow> CSet \<Rightarrow> int32_ptr \<Rightarrow> uint32_t \<Rightarrow> uint32_t \<Rightarrow> uint32_t \<Rightarrow> (int32_ptr \<times> uint32_t) option" where
  "sym_loop A B data i a b =
     (if a < Usage A \<or> b < Usage B then
        if a < Usage A \<and> b < Usage B then
          do { x \<leftarrow> array_get (Data A) (unat a);
               y \<leftarrow> array_get (Data B) (unat b);
               if x = y then sym_loop A B data i (a + 1) (b + 1)
               else if x <s y then
                 do { data' \<leftarrow> array_set data (unat i) x;
                      sym_loop A B data' (i + 1) (a + 1) b }
               else
                 do { data' \<leftarrow> array_set data (unat i) y;
                      sym_loop A B data' (i + 1) a (b + 1) } }
        else if a < Usage A then
          do { x \<leftarrow> array_get (Data A) (unat a);
               data' \<leftarrow> array_set data (unat i) x;
               sym_loop A B data' (i + 1) (a + 1) b }
        else
          do { y \<leftarrow> array_get (Data B) (unat b);
               data' \<leftarrow> array_set data (unat i) y;
               sym_loop A B data' (i + 1) a (b + 1) }
      else Some (data, i))"
  by pat_completeness auto
termination
proof -
  have dec: "unat (u - (k + 1)) < unat (u - k)" if "k < u" for k u :: uint32_t
    using that by unat_arith
  show ?thesis
    by (relation "measure (\<lambda>(A, B, data, i, a, b). unat (Usage A - a) + unat (Usage B - b))")
       (auto simp: dec intro: add_less_le_mono add_le_less_mono add_strict_mono)
qed

declare sym_loop.simps [simp del]

definition CSet_SymDifference :: "(nat \<Rightarrow> int32_ptr) \<Rightarrow> store \<Rightarrow> CSet_ptr \<Rightarrow> CSet_ptr \<Rightarrow> CSet_ptr \<Rightarrow> (bool \<times> store) option" where
  "CSet_SymDifference malloc h pSym pA pB =
     (let capacity = Capacity (h pA) + Capacity (h pB);
          data = malloc (unat capacity * sizeof_int32_t)
      in if data = NULL then Some (False, h)
         else
           do { (data', i) \<leftarrow> sym_loop (h pA) (h pB) data 0 0 0;
                let h = h(pSym := (h pSym)\<lparr>Usage := i\<rparr>);
                data'' \<leftarrow> fill_tail data' capacity i;
                let h = h(pSym := (h pSym)\<lparr>Data := data''\<rparr>);
                let h = h(pSym := (h pSym)\<lparr>Capacity := capacity\<rparr>);
                Some (True, h) })"

subsection \<open>Copy\<close>

text \<open>
  The loop of \<^verbatim>\<open>CSet_Copy\<close> runs after the test \<^verbatim>\<open>pTarget == pSource\<close> has failed, so
  the two objects are distinct; it reads the source array and writes the new target array.
\<close>

function copy_loop :: "int32_ptr \<Rightarrow> int32_ptr \<Rightarrow> uint32_t \<Rightarrow> uint32_t \<Rightarrow> int32_ptr option" where
  "copy_loop target source capacity i =
     (if i < capacity then
        do { x \<leftarrow> array_get source (unat i);
             target' \<leftarrow> array_set target (unat i) x;
             copy_loop target' source capacity (i + 1) }
      else Some target)"
  by pat_completeness auto
termination
  by (relation "measure (\<lambda>(target, source, capacity, i). unat (capacity - i))")
     (simp_all, unat_arith)

declare copy_loop.simps [simp del]

definition CSet_Copy :: "(nat \<Rightarrow> int32_ptr) \<Rightarrow> store \<Rightarrow> CSet_ptr \<Rightarrow> CSet_ptr \<Rightarrow> (bool \<times> store) option" where
  "CSet_Copy malloc h pTarget pSource =
     (if pTarget = pSource then Some (True, h)
      else
        let initialData = NULL;
            initialData = (if Data (h pTarget) \<noteq> NULL then Data (h pTarget) else initialData);
            h = h(pTarget := (h pTarget)\<lparr>Data := malloc (unat (Capacity (h pSource)) * sizeof_int32_t)\<rparr>)
        in if Data (h pTarget) = NULL then
             Some (False, h(pTarget := (h pTarget)\<lparr>Data := initialData\<rparr>))
           else
             do { d \<leftarrow> copy_loop (Data (h pTarget)) (Data (h pSource)) (Capacity (h pSource)) 0;
                  let h = h(pTarget := (h pTarget)\<lparr>Data := d\<rparr>);
                  let h = h(pTarget := (h pTarget)\<lparr>Usage := Usage (h pSource)\<rparr>);
                  let h = h(pTarget := (h pTarget)\<lparr>Capacity := Capacity (h pSource)\<rparr>);
                  Some (True, h) })"


section \<open>A large set\<close>

text \<open>
  The set of the \<open>n\<close> values \<open>-2147483647, -2147483646, \<dots>\<close> in ascending order, in an
  array of dimension \<open>n\<close> (for \<open>n\<close> below \<open>2^32 - 1\<close>).
\<close>

definition first_values :: "nat \<Rightarrow> CSet" where
  "first_values n =
     \<lparr>Capacity = word_of_nat n, Usage = word_of_nat n,
      Data = Array (map (\<lambda>k. word_of_int (int k - 2147483647)) [0..<n])\<rparr>"

text \<open>
  The empty set with an array of dimension \<open>n\<close>, as \<^verbatim>\<open>CSet_Init\<close> leaves it (for
  \<open>n\<close> below \<open>2^32\<close>).
\<close>

definition empty_of_capacity :: "nat \<Rightarrow> CSet" where
  "empty_of_capacity n =
     \<lparr>Capacity = word_of_nat n, Usage = 0, Data = Array (replicate n INT32_MIN)\<rparr>"

section \<open>Auxiliary facts\<close>

subsection \<open>Words, lists and proper sets\<close>

lemma unat_plus1: "i < u \<Longrightarrow> unat (i + 1) = Suc (unat i)" for i u :: uint32_t
  by unat_arith

lemma plus1_le: "i < u \<Longrightarrow> i + 1 \<le> u" for i u :: uint32_t
  by unat_arith

subsection \<open>The loops of Remove\<close>

lemma remove_scan_absent:
  "unat usage \<le> length xs \<Longrightarrow> i \<le> usage \<Longrightarrow>
   (\<forall>k. unat i \<le> k \<and> k < unat usage \<longrightarrow> xs ! k \<noteq> v) \<Longrightarrow>
   remove_scan (Array xs) usage v i = Some (False, usage)"
proof (induction "Array xs" usage v i rule: remove_scan.induct)
  case (1 usage v i)
  show ?case
  proof (cases "i < usage")
    case True
    then have bound: "unat i < length xs" and ne: "xs ! unat i \<noteq> v"
      using "1.prems" by (auto simp: word_less_nat_alt)
    have "remove_scan (Array xs) usage v (i + 1) = Some (False, usage)"
      using "1.hyps" [of "xs ! unat i"] True bound ne "1.prems"
      by (simp add: unat_plus1 [OF True] plus1_le [OF True])
    then show ?thesis
      using True bound ne by (subst remove_scan.simps) simp
  next
    case False
    then have "i = usage"
      using "1.prems"(2) by simp
    then show ?thesis
      by (subst remove_scan.simps) simp
  qed
qed

lemma remove_scan_present:
  "unat usage \<le> length xs \<Longrightarrow> i \<le> j \<Longrightarrow> j < usage \<Longrightarrow> xs ! unat j = v \<Longrightarrow>
   (\<forall>k. unat i \<le> k \<and> k < unat j \<longrightarrow> xs ! k \<noteq> v) \<Longrightarrow>
   remove_scan (Array xs) usage v i = Some (True, j)"
proof (induction "Array xs" usage v i rule: remove_scan.induct)
  case (1 usage v i)
  have lt: "i < usage"
    using "1.prems" by simp
  then have bound: "unat i < length xs"
    using "1.prems" by (auto simp: word_less_nat_alt)
  show ?case
  proof (cases "i = j")
    case True
    then show ?thesis
      using lt bound "1.prems" by (subst remove_scan.simps) simp
  next
    case False
    then have ij: "i < j"
      using "1.prems"(2) by simp
    then have ne: "xs ! unat i \<noteq> v"
      using "1.prems"(5) by (auto simp: word_less_nat_alt)
    have "remove_scan (Array xs) usage v (i + 1) = Some (True, j)"
      using "1.hyps" [of "xs ! unat i"] lt bound ne "1.prems"
      by (simp add: unat_plus1 [OF ij] plus1_le [OF ij])
    then show ?thesis
      using lt bound ne by (subst remove_scan.simps) simp
  qed
qed


lemma remove_shift_Array:
  "2 \<le> unat usage \<Longrightarrow> unat usage \<le> length xs \<Longrightarrow> i < usage \<Longrightarrow>
   \<exists>ys. remove_shift (Array xs) usage i = Some (Array ys) \<and> length ys = length xs \<and>
     (\<forall>k < length xs. ys ! k = (if unat i \<le> k \<and> k < unat usage - 1 then xs ! Suc k else xs ! k))"
proof (induction "unat usage - 1 - unat i" arbitrary: i xs)
  case 0
  then have "unat i = unat usage - 1"
    by (simp add: word_less_nat_alt)
  then have stop: "\<not> i \<le> usage - 2"
    using "0.prems"(1) by unat_arith
  show ?case
    using stop \<open>unat i = unat usage - 1\<close>
    by (subst remove_shift.simps) auto
next
  case (Suc m)
  then have lt: "unat i < unat usage - 1"
    by simp
  then have go: "i \<le> usage - 2"
    using Suc.prems(1) by unat_arith
  have i1: "unat (i + 1) = Suc (unat i)"
    using unat_plus1 [OF Suc.prems(3)] .
  have i1_lt: "i + 1 < usage"
    using lt i1 by (simp add: word_less_nat_alt)
  let ?xs' = "xs[unat i := xs ! Suc (unat i)]"
  have "m = unat usage - 1 - unat (i + 1)"
    using Suc.hyps(2) i1 by simp
  from Suc.hyps(1) [OF this Suc.prems(1) _ i1_lt, of ?xs'] Suc.prems(2)
  obtain ys where ys: "remove_shift (Array ?xs') usage (i + 1) = Some (Array ys)"
    "length ys = length xs"
    "\<forall>k < length xs. ys ! k = (if Suc (unat i) \<le> k \<and> k < unat usage - 1 then ?xs' ! Suc k else ?xs' ! k)"
    by (auto simp: i1)
  have step: "remove_shift (Array xs) usage i = Some (Array ys)"
    using go lt Suc.prems(2) ys(1) by (subst remove_shift.simps) (simp add: i1)
  have "ys ! k = (if unat i \<le> k \<and> k < unat usage - 1 then xs ! Suc k else xs ! k)"
    if "k < length xs" for k
    using ys(3) that lt by (cases "k = unat i") (auto simp: nth_list_update)
  then show ?case
    using step ys(2) by blast
qed


lemma list_all_drop_nth:
  "list_all P (drop n xs) \<longleftrightarrow> (\<forall>k. n \<le> k \<and> k < length xs \<longrightarrow> P (xs ! k))"
proof
  assume "list_all P (drop n xs)"
  then have *: "\<forall>m < length xs - n. P (xs ! (n + m))"
    by (simp add: list_all_length)
  show "\<forall>k. n \<le> k \<and> k < length xs \<longrightarrow> P (xs ! k)"
  proof (intro allI impI)
    fix k assume "n \<le> k \<and> k < length xs"
    then show "P (xs ! k)"
      using * [rule_format, of "k - n"] by auto
  qed
next
  assume "\<forall>k. n \<le> k \<and> k < length xs \<longrightarrow> P (xs ! k)"
  then show "list_all P (drop n xs)"
    by (simp add: list_all_length)
qed

lemma sorted_wrt_take_nth:
  "n \<le> length xs \<Longrightarrow>
   sorted_wrt P (take n xs) \<longleftrightarrow> (\<forall>i j. i < j \<and> j < n \<longrightarrow> P (xs ! i) (xs ! j))"
  by (auto simp: sorted_wrt_iff_nth_less)

lemma proper_Array_iff:
  "Data s = Array xs \<Longrightarrow>
   proper s \<longleftrightarrow>
     0 < Capacity s \<and> length xs = unat (Capacity s) \<and> Usage s \<le> Capacity s \<and>
     (\<forall>i j. i < j \<and> j < unat (Usage s) \<longrightarrow> xs ! i <s xs ! j) \<and>
     (\<forall>k. unat (Usage s) \<le> k \<and> k < length xs \<longrightarrow> xs ! k = INT32_MIN)"
proof -
  assume d: "Data s = Array xs"
  have "sorted_wrt (<s) (take (unat (Usage s)) xs) \<longleftrightarrow>
        (\<forall>i j. i < j \<and> j < unat (Usage s) \<longrightarrow> xs ! i <s xs ! j)"
    if "length xs = unat (Capacity s)" "Usage s \<le> Capacity s"
    using that by (intro sorted_wrt_take_nth) (simp add: word_le_nat_alt)
  then show ?thesis
    unfolding proper_def d by (auto simp: list_all_drop_nth)
qed

lemma proper_NULL_iff:
  "Data s = NULL \<Longrightarrow> proper s \<longleftrightarrow> Capacity s = 0 \<and> Usage s = 0"
  by (simp add: proper_def)

lemma elements_Array:
  "Data s = Array xs \<Longrightarrow> elements s = take (unat (Usage s)) xs"
  by (simp add: elements_def)

lemma in_elements_iff:
  "Data s = Array xs \<Longrightarrow> unat (Usage s) \<le> length xs \<Longrightarrow>
   v \<in> set (elements s) \<longleftrightarrow> (\<exists>k < unat (Usage s). xs ! k = v)"
  by (auto simp: elements_def in_set_conv_nth)

lemma proper_elements_NULL:
  "proper s \<Longrightarrow> Data s = NULL \<Longrightarrow> elements s = []"
  by (simp add: elements_def)


lemma CSet_Remove_not_found:
  "remove_scan (Data s) (Usage s) v 0 = Some (False, i) \<Longrightarrow> CSet_Remove s v = Some (False, s)"
  by (subst CSet_Remove.simps) simp

lemma CSet_Remove_absent:
  assumes "proper s" and "v \<notin> set (elements s)"
  shows "CSet_Remove s v = Some (False, s)"
proof (cases "Data s")
  case NULL
  then have "Usage s = 0"
    using assms(1) by (simp add: proper_NULL_iff)
  then have "remove_scan (Data s) (Usage s) v 0 = Some (False, 0)"
    by (subst remove_scan.simps) simp
  then show ?thesis
    by (rule CSet_Remove_not_found)
next
  case (Array xs)
  then have len: "unat (Usage s) \<le> length xs"
    using assms(1) by (simp add: proper_Array_iff word_le_nat_alt)
  then have "\<forall>k. unat (0 :: uint32_t) \<le> k \<and> k < unat (Usage s) \<longrightarrow> xs ! k \<noteq> v"
    using assms(2) Array by (auto simp: in_elements_iff)
  then have "remove_scan (Array xs) (Usage s) v 0 = Some (False, Usage s)"
    using len by (intro remove_scan_absent) simp_all
  then show ?thesis
    using Array by (intro CSet_Remove_not_found [of _ _ "Usage s"]) simp
qed

lemma remove_scan_found:
  "remove_scan d usage v i = Some (True, j) \<Longrightarrow> j < usage \<and> array_get d (unat j) = Some v"
proof (induction d usage v i rule: remove_scan.induct)
  case (1 d usage v i)
  then show ?case
    by (subst (asm) (2) remove_scan.simps) (auto split: if_splits bind_splits)
qed

lemma proper_sorted_distinct:
  assumes "proper s" and "Data s = Array xs" and "a < b" and "b < unat (Usage s)"
  shows "xs ! a \<noteq> xs ! b"
proof -
  have "xs ! a <s xs ! b"
    using assms by (simp add: proper_Array_iff)
  then show ?thesis
    by auto
qed

lemma remove_shift_then_absent:
  assumes "proper s" and d: "Data s = Array xs" and j: "j < Usage s" and v: "xs ! unat j = v"
    and not_last: "j \<noteq> Usage s - 1"
  shows "\<exists>ys. remove_shift (Array xs) (Usage s) j = Some (Array ys) \<and> length ys = length xs \<and>
           (\<forall>k < length xs. ys ! k =
              (if unat j \<le> k \<and> k < unat (Usage s) - 1 then xs ! Suc k else xs ! k)) \<and>
           (\<forall>k < unat (Usage s) - 1. ys ! k \<noteq> v) \<and>
           remove_scan (Array ys) (Usage s - 1) v 0 = Some (False, Usage s - 1)"
proof -
  let ?n = "unat (Usage s)"
  have len: "?n \<le> length xs"
    using assms(1) d by (simp add: proper_Array_iff word_le_nat_alt)
  note distinct = proper_sorted_distinct [OF assms(1) d]
  have jn: "unat j < ?n"
    using j by (simp add: word_less_nat_alt)
  have pred: "unat (Usage s - 1) = ?n - 1"
    using j by unat_arith
  have jl: "unat j < ?n - 1"
    using jn pred not_last
    by (metis Suc_pred' less_Suc_eq not_less_zero word_unat_eq_iff zero_less_iff_neq_zero)
  then have two: "2 \<le> ?n"
    by simp
  from remove_shift_Array [OF two len j]
  obtain ys where ys: "remove_shift (Array xs) (Usage s) j = Some (Array ys)"
    "length ys = length xs"
    "\<forall>k < length xs. ys ! k = (if unat j \<le> k \<and> k < ?n - 1 then xs ! Suc k else xs ! k)"
    by blast
  have absent: "ys ! k \<noteq> v" if "k < ?n - 1" for k
  proof (cases "k < unat j")
    case True
    then show ?thesis
      using ys(3) that len distinct [of k "unat j"] jn v by auto
  next
    case False
    then have "ys ! k = xs ! Suc k"
      using ys(3) that len by auto
    moreover have "unat j < Suc k" "Suc k < ?n"
      using False that by simp_all
    ultimately show ?thesis
      using distinct [of "unat j" "Suc k"] v by simp
  qed
  then have "remove_scan (Array ys) (Usage s - 1) v 0 = Some (False, Usage s - 1)"
    using len ys(2) pred by (intro remove_scan_absent) simp_all
  then show ?thesis
    using ys absent by blast
qed

lemma remove_scan_proper_present:
  assumes "proper s" and d: "Data s = Array xs" and j: "j < Usage s" and v: "xs ! unat j = v"
  shows "remove_scan (Data s) (Usage s) v 0 = Some (True, j)"
proof -
  have len: "unat (Usage s) \<le> length xs"
    using assms(1) d by (simp add: proper_Array_iff word_le_nat_alt)
  have jn: "unat j < unat (Usage s)"
    using j by (simp add: word_less_nat_alt)
  have "\<forall>k. unat (0 :: uint32_t) \<le> k \<and> k < unat j \<longrightarrow> xs ! k \<noteq> v"
    using proper_sorted_distinct [OF assms(1) d _ jn] v by auto
  then show ?thesis
    unfolding d using len j v by (intro remove_scan_present) simp_all
qed

lemma CSet_Remove_present:
  assumes "proper s" and d: "Data s = Array xs" and j: "j < Usage s" and v: "xs ! unat j = v"
  shows "\<exists>zs. CSet_Remove s v = Some (True, s\<lparr>Data := Array zs, Usage := Usage s - 1\<rparr>) \<and>
           length zs = length xs \<and>
           (\<forall>k < length xs. zs ! k =
              (if k < unat j then xs ! k
               else if k < unat (Usage s) - 1 then xs ! Suc k
               else if k = unat (Usage s) - 1 then INT32_MIN else xs ! k))"
proof -
  let ?n = "unat (Usage s)"
  have len: "?n \<le> length xs"
    using assms(1) d by (simp add: proper_Array_iff word_le_nat_alt)
  have jn: "unat j < ?n"
    using j by (simp add: word_less_nat_alt)
  note scan = remove_scan_proper_present [OF assms]
  have pred: "unat (Usage s - 1) = ?n - 1"
    using j by unat_arith
  show ?thesis
  proof (cases "j = Usage s - 1")
    case True
    then have jl: "unat j = ?n - 1"
      using pred by simp
    have "CSet_Remove s v = Some (True, s\<lparr>Data := Array (xs[unat j := INT32_MIN]), Usage := Usage s - 1\<rparr>)"
      using scan True jn len d by (subst CSet_Remove.simps) simp
    moreover have "\<forall>k < length xs. xs[unat j := INT32_MIN] ! k =
              (if k < unat j then xs ! k
               else if k < unat (Usage s) - 1 then xs ! Suc k
               else if k = unat (Usage s) - 1 then INT32_MIN else xs ! k)"
      using jl by (auto simp: nth_list_update)
    ultimately show ?thesis
      by (intro exI [of _ "xs[unat j := INT32_MIN]"]) simp
  next
    case False
    from remove_shift_then_absent [OF assms False]
    obtain ys where ys: "remove_shift (Array xs) (Usage s) j = Some (Array ys)"
      "length ys = length xs"
      "\<forall>k < length xs. ys ! k = (if unat j \<le> k \<and> k < ?n - 1 then xs ! Suc k else xs ! k)"
      "remove_scan (Array ys) (Usage s - 1) v 0 = Some (False, Usage s - 1)"
      by blast
    have jl: "unat j < ?n - 1"
      using jn pred False
      by (metis Suc_pred' less_Suc_eq not_less_zero word_unat_eq_iff zero_less_iff_neq_zero)
    let ?s1 = "s\<lparr>Data := Array ys, Usage := Usage s - 1\<rparr>"
    have rec: "CSet_Remove ?s1 v = Some (False, ?s1)"
      using ys(4) by (intro CSet_Remove_not_found [of _ _ "Usage s - 1"]) simp
    let ?zs = "ys[?n - 1 := INT32_MIN]"
    have "CSet_Remove s v = Some (True, s\<lparr>Data := Array ?zs, Usage := Usage s - 1\<rparr>)"
      using scan False d ys(1,2) rec jl len pred
      by (subst CSet_Remove.simps) simp
    moreover have "\<forall>k < length xs. ?zs ! k =
              (if k < unat j then xs ! k
               else if k < unat (Usage s) - 1 then xs ! Suc k
               else if k = unat (Usage s) - 1 then INT32_MIN else xs ! k)"
      using ys(2,3) jl by (auto simp: nth_list_update)
    ultimately show ?thesis
      using ys(2) by (intro exI [of _ ?zs]) simp
  qed
qed

subsection \<open>The binary search\<close>



lemma contains_loop_empty: "hi < lo \<Longrightarrow> contains_loop d v lo hi mid = Some False"
  by (subst contains_loop.simps) simp


lemma sint32: "sint (w :: 32 word) = (if uint w < 2147483648 then uint w else uint w - 4294967296)"
proof -
  have a: "sint w = (uint w + 2147483648) mod 4294967296 - 2147483648"
    using int_word_sint [of "uint w", where ?'a = 32] by simp
  have b: "0 \<le> uint w" "uint w < 4294967296"
    using uint_bounded [of w] by simp_all
  show ?thesis
  proof (cases "uint w < 2147483648")
    case True
    then have "(uint w + 2147483648) mod 4294967296 = uint w + 2147483648"
      using b by (intro mod_pos_pos_trivial) simp_all
    then show ?thesis using a True by simp
  next
    case False
    then have "(uint w + 2147483648) mod 4294967296 = uint w + 2147483648 - 4294967296"
      using b by (subst mod_pos_geq) (simp_all add: mod_pos_pos_trivial)
    then show ?thesis using a False by simp
  qed
qed

lemma sint32_unat: "sint (w :: 32 word) = (if unat w < 2147483648 then int (unat w) else int (unat w) - 4294967296)"
proof -
  have e: "uint w = int (unat w)"
    by simp
  have "int (unat w) < 2147483648 \<longleftrightarrow> unat w < 2147483648"
    by linarith
  then show ?thesis
    unfolding sint32 [of w] e by presburger
qed




lemma sint_pred_usage_neg:
  fixes u :: uint32_t
  assumes "2147483648 < unat u"
  shows "sint (u - 1) < 0"
proof -
  have pred: "unat (u - 1) = unat u - 1"
    using assms by unat_arith
  then have "\<not> unat (u - 1) < 2147483648"
    using assms by linarith
  then have "sint (u - 1) = int (unat (u - 1)) - 4294967296"
    by (simp only: sint32_unat if_False)
  moreover have "unat (u - 1) < 4294967296"
    using unsigned_less [of "u - 1", where ?'a = nat] by simp
  ultimately show ?thesis
    by linarith
qed

lemma CSet_Contains_unfold:
  "Usage s \<noteq> 0 \<Longrightarrow>
   CSet_Contains s v = contains_loop (Data s) v 0 (sint (Usage s - 1)) (c_div (sint (Usage s - 1)) 2)"
  using sint_ge [of "Usage s - 1"] sint_lt [of "Usage s - 1"]
  by (simp add: CSet_Contains_def Let_def int32_result_def)




subsection \<open>The set after a removal\<close>




lemma remove_scan_proper_absent:
  assumes "proper s" and "v \<notin> set (elements s)"
  shows "remove_scan (Data s) (Usage s) v 0 = Some (False, Usage s)"
proof (cases "Data s")
  case NULL
  then have "Usage s = 0"
    using assms(1) by (simp add: proper_NULL_iff)
  then show ?thesis
    by (subst remove_scan.simps) simp
next
  case (Array xs)
  then have len: "unat (Usage s) \<le> length xs"
    using assms(1) by (simp add: proper_Array_iff word_le_nat_alt)
  then have "\<forall>k. unat (0 :: uint32_t) \<le> k \<and> k < unat (Usage s) \<longrightarrow> xs ! k \<noteq> v"
    using assms(2) Array by (auto simp: in_elements_iff)
  then show ?thesis
    unfolding Array using len by (intro remove_scan_absent) simp_all
qed

lemma CSet_Remove_calls_not_found:
  "remove_scan (Data s) (Usage s) v 0 = Some (False, i) \<Longrightarrow> CSet_Remove_calls s v = Some 1"
  by (subst CSet_Remove_calls.simps) simp

lemma proper_present_index:
  assumes "proper s" and "v \<in> set (elements s)"
  shows "\<exists>xs j. Data s = Array xs \<and> j < Usage s \<and> xs ! unat j = v"
proof -
  obtain xs where d: "Data s = Array xs"
    using assms by (cases "Data s") (simp_all add: elements_def)
  have nl: "unat (Usage s) \<le> length xs"
    using assms d by (simp add: proper_Array_iff word_le_nat_alt)
  from assms(2) obtain i where i: "i < unat (Usage s)" "xs ! i = v"
    using d nl by (auto simp: in_elements_iff)
  have "unat (of_nat i :: uint32_t) = i"
    using i(1) by (intro le_unat_uoi [of _ "Usage s"]) simp
  then have "(of_nat i :: uint32_t) < Usage s \<and> xs ! unat (of_nat i :: uint32_t) = v"
    using i by (simp add: word_less_nat_alt)
  then show ?thesis
    using d by blast
qed

lemma CSet_Insert_False_unchanged:
  "CSet_Insert malloc s v = Some (False, s') \<Longrightarrow> s' = s"
  by (auto simp: CSet_Insert_def Let_def split: if_splits bind_splits prod.splits)

lemma CSet_Intersection_False_unchanged:
  "CSet_Intersection malloc h pI pA pB = Some (False, h') \<Longrightarrow> h' = h"
  by (auto simp: CSet_Intersection_def Let_def split: if_splits bind_splits prod.splits)

lemma CSet_SymDifference_False_unchanged:
  "CSet_SymDifference malloc h pSym pA pB = Some (False, h') \<Longrightarrow> h' = h"
  by (auto simp: CSet_SymDifference_def Let_def split: if_splits bind_splits prod.splits)

lemma CSet_Copy_False_unchanged:
  "CSet_Copy malloc h pTarget pSource = Some (False, h') \<Longrightarrow> h' = h"
  by (auto simp: CSet_Copy_def Let_def split: if_splits bind_splits prod.splits)

lemma CSet_Init_False:
  "CSet_Init malloc pSet Sz = Some (False, r) \<Longrightarrow>
   r = (case pSet of None \<Rightarrow> None | Some s \<Rightarrow> Some \<lparr>Capacity = 0, Usage = 0, Data = NULL\<rparr>)"
  by (auto simp: CSet_Init_def Let_def split: if_splits bind_splits prod.splits option.splits)



lemma fill_tail_Array:
  "unat capacity \<le> length ns \<Longrightarrow> i \<le> capacity \<Longrightarrow>
   \<exists>ns'. fill_tail (Array ns) capacity i = Some (Array ns') \<and> length ns' = length ns \<and>
     (\<forall>k < length ns. ns' ! k = (if unat i \<le> k \<and> k < unat capacity then INT32_MIN else ns ! k))"
proof (induction "unat capacity - unat i" arbitrary: i ns)
  case 0
  then have "i = capacity"
    by (simp add: word_le_nat_alt word_unat_eq_iff)
  then show ?case
    by (subst fill_tail.simps) auto
next
  case (Suc m)
  then have lt: "i < capacity"
    by (simp add: word_less_nat_alt)
  have i1: "unat (i + 1) = Suc (unat i)"
    using unat_plus1 [OF lt] .
  have bound: "unat i < length ns"
    using lt Suc.prems(1) by (simp add: word_less_nat_alt)
  let ?ns = "ns[unat i := INT32_MIN]"
  have "m = unat capacity - unat (i + 1)"
    using Suc.hyps(2) i1 by simp
  from Suc.hyps(1) [OF this, of ?ns] Suc.prems(1) plus1_le [OF lt]
  obtain ns' where ns': "fill_tail (Array ?ns) capacity (i + 1) = Some (Array ns')"
    "length ns' = length ns"
    "\<forall>k < length ns. ns' ! k = (if Suc (unat i) \<le> k \<and> k < unat capacity then INT32_MIN else ?ns ! k)"
    by (auto simp: i1)
  have step: "fill_tail (Array ns) capacity i = Some (Array ns')"
    using lt bound ns'(1) by (subst fill_tail.simps) simp
  have "ns' ! k = (if unat i \<le> k \<and> k < unat capacity then INT32_MIN else ns ! k)"
    if "k < length ns" for k
    using ns'(3) that lt by (cases "k = unat i") (auto simp: nth_list_update word_less_nat_alt)
  then show ?case
    using step ns'(2) by blast
qed

lemma insert_merge_greatest:
  assumes "unat usage \<le> length xs" and "usage < usage + 1"
    and "\<forall>k < unat usage. xs ! k <s v"
  shows "unat usage < length ns \<Longrightarrow> i \<le> usage \<Longrightarrow>
     \<exists>ns'. insert_merge (Array xs) usage v (Array ns) i i = Some (Array ns', usage + 1) \<and>
       length ns' = length ns \<and>
       (\<forall>k < length ns. ns' ! k =
          (if unat i \<le> k \<and> k < unat usage then xs ! k else if k = unat usage then v else ns ! k))"
proof (induction "unat usage - unat i" arbitrary: i ns)
  case 0
  then have eq: "i = usage"
    by (simp add: word_le_nat_alt word_unat_eq_iff)
  have "insert_merge (Array xs) usage v (Array (ns[unat usage := v])) (usage + 1) usage
          = Some (Array (ns[unat usage := v]), usage + 1)"
    by (subst insert_merge.simps) simp
  then have "insert_merge (Array xs) usage v (Array ns) i i = Some (Array (ns[unat usage := v]), usage + 1)"
    unfolding eq using assms(2) "0.prems"(1) by (subst insert_merge.simps) simp
  moreover have "\<forall>k < length ns. ns[unat usage := v] ! k =
          (if unat i \<le> k \<and> k < unat usage then xs ! k else if k = unat usage then v else ns ! k)"
    unfolding eq by (auto simp: nth_list_update)
  ultimately show ?case
    by (intro exI [of _ "ns[unat usage := v]"]) simp
next
  case (Suc m)
  then have lt: "i < usage"
    by (simp add: word_less_nat_alt)
  then have lt1: "i < usage + 1"
    using assms(2) by simp
  have i1: "unat (i + 1) = Suc (unat i)"
    using unat_plus1 [OF lt] .
  have iu: "unat i < unat usage"
    using lt by (simp add: word_less_nat_alt)
  let ?ns = "ns[unat i := xs ! unat i]"
  have "m = unat usage - unat (i + 1)"
    using Suc.hyps(2) i1 by simp
  from Suc.hyps(1) [OF this, of ?ns] Suc.prems plus1_le [OF lt]
  obtain ns' where ns': "insert_merge (Array xs) usage v (Array ?ns) (i + 1) (i + 1) = Some (Array ns', usage + 1)"
    "length ns' = length ns"
    "\<forall>k < length ns. ns' ! k =
       (if Suc (unat i) \<le> k \<and> k < unat usage then xs ! k else if k = unat usage then v else ?ns ! k)"
    by (auto simp: i1)
  have step: "insert_merge (Array xs) usage v (Array ns) i i = Some (Array ns', usage + 1)"
    using lt lt1 iu assms(1,3) Suc.prems ns'(1) by (subst insert_merge.simps) simp
  have "ns' ! k = (if unat i \<le> k \<and> k < unat usage then xs ! k else if k = unat usage then v else ns ! k)"
    if "k < length ns" for k
    using ns'(3) that iu by (cases "k = unat i") (auto simp: nth_list_update)
  then show ?case
    using step ns'(2) by blast
qed


lemma unat_double:
  "unat c < 2147483648 \<Longrightarrow> unat (c * 2) = 2 * unat c" for c :: uint32_t
  by (simp add: unat_word_ariths)

lemma allocator_malloc_7: "allocator malloc_7"
  by (simp add: allocator_def malloc_7_def)

lemma allocator_length:
  "allocator malloc \<Longrightarrow> malloc (n * sizeof_int32_t) = Array ns \<Longrightarrow> length ns = n"
  by (auto simp: allocator_def sizeof_int32_t_def)

lemma CSet_Insert_greatest_growth:
  assumes "proper s" and d: "Data s = Array xs" and full: "\<not> Usage s + 1 < Capacity s"
    and small: "unat (Capacity s) < 2147483648"
    and m: "malloc (unat (Capacity s * 2) * sizeof_int32_t) = Array ns"
    and len_ns: "length ns = unat (Capacity s * 2)"
    and greater: "\<forall>k < unat (Usage s). xs ! k <s v"
  shows "\<exists>zs. CSet_Insert malloc s v
             = Some (True, s\<lparr>Capacity := Capacity s * 2, Data := Array zs, Usage := Usage s + 1\<rparr>) \<and>
           length zs = 2 * unat (Capacity s) \<and>
           (\<forall>k < 2 * unat (Capacity s). zs ! k =
              (if k < unat (Usage s) then xs ! k else if k = unat (Usage s) then v else INT32_MIN))"
proof -
  let ?n = "unat (Usage s)" and ?c = "unat (Capacity s)"
  have p: "0 < Capacity s" "length xs = ?c" "Usage s \<le> Capacity s"
    using assms(1) d by (simp_all add: proper_Array_iff)
  have nc: "?n \<le> ?c"
    using p(3) by (simp add: word_le_nat_alt)
  have c0: "0 < ?c"
    using p(1) by (simp add: word_less_nat_alt)
  have c2: "unat (Capacity s * 2) = 2 * ?c"
    using small by (rule unat_double)
  have n1: "unat (Usage s + 1) = Suc ?n"
    using nc small by (simp add: unat_word_ariths)
  have lt: "Usage s < Usage s + 1"
    using n1 by (simp add: word_less_nat_alt)
  have cap: "\<not> Capacity s \<le> 0"
    using p(1) by simp
  have "unat (Usage s) \<le> length xs" "unat (Usage s) < length ns" "(0 :: uint32_t) \<le> Usage s"
    using nc p(2) len_ns c2 c0 by simp_all
  from insert_merge_greatest [where i = 0, OF this(1) lt greater this(2,3)]
  obtain ns' where ns': "insert_merge (Array xs) (Usage s) v (Array ns) 0 0 = Some (Array ns', Usage s + 1)"
    "length ns' = length ns"
    "\<forall>k < length ns. ns' ! k =
       (if k < ?n then xs ! k else if k = ?n then v else ns ! k)"
    by auto
  have "Usage s + 1 \<le> Capacity s * 2"
    using n1 c2 nc c0 by (simp add: word_le_nat_alt)
  from fill_tail_Array [OF _ this, of ns'] ns'(2) len_ns
  obtain zs where zs: "fill_tail (Array ns') (Capacity s * 2) (Usage s + 1) = Some (Array zs)"
    "length zs = length ns"
    "\<forall>k < length ns. zs ! k =
       (if Suc ?n \<le> k \<and> k < 2 * ?c then INT32_MIN else ns' ! k)"
    by (auto simp: n1 c2)
  have "CSet_Insert malloc s v
          = Some (True, s\<lparr>Capacity := Capacity s * 2, Data := Array zs, Usage := Usage s + 1\<rparr>)"
    using d full cap m ns'(1) zs(1) by (simp add: CSet_Insert_def Let_def)
  moreover have "zs ! k = (if k < ?n then xs ! k else if k = ?n then v else INT32_MIN)"
    if "k < 2 * ?c" for k
    using zs(3) ns'(3) that len_ns c2 by auto
  ultimately show ?thesis
    using zs(2) len_ns c2 by auto
qed

lemma sint_first_value:
  assumes "k < 4294967295"
  shows "sint (word_of_int (int k - 2147483647) :: int32_t) = int k - 2147483647"
proof -
  have "signed_take_bit 31 (int k - 2147483647) = int k - 2147483647"
    using assms by (intro signed_take_bit_int_eq_self) simp_all
  then show ?thesis
    unfolding signed_of_int by simp
qed

lemma unat_first_values:
  "n < 4294967295 \<Longrightarrow> unat (Usage (first_values n)) = n"
  by (simp add: first_values_def unat_of_nat)

lemma proper_first_values:
  assumes "0 < n" and "n < 4294967295"
  shows "proper (first_values n)"
proof -
  have un: "unat (word_of_nat n :: uint32_t) = n"
    using assms(2) by (simp add: unat_of_nat)
  have "word_of_int (int a - 2147483647) <s (word_of_int (int b - 2147483647) :: int32_t)"
    if "a < b" "b < n" for a b
  proof -
    have "a < 4294967295" "b < 4294967295"
      using that assms(2) by simp_all
    then show ?thesis
      unfolding word_sless_alt using that(1) by (simp only: sint_first_value)
  qed
  then have "\<forall>i j. i < j \<and> j < n \<longrightarrow>
      map (\<lambda>k. word_of_int (int k - 2147483647) :: int32_t) [0..<n] ! i
        <s map (\<lambda>k. word_of_int (int k - 2147483647)) [0..<n] ! j"
    by simp
  then show ?thesis
    using assms(1) un
    unfolding first_values_def
    by (subst proper_Array_iff [where xs = "map (\<lambda>k. word_of_int (int k - 2147483647)) [0..<n]"])
       (auto simp: word_less_nat_alt)
qed

lemma first_values_member:
  assumes "k < n" and "n < 4294967295"
  shows "word_of_int (int k - 2147483647) \<in> set (elements (first_values n))"
proof -
  have "unat (word_of_nat n :: uint32_t) = n"
    using assms(2) by (simp add: unat_of_nat)
  then have "elements (first_values n) = map (\<lambda>k. word_of_int (int k - 2147483647)) [0..<n]"
    by (simp add: elements_def first_values_def)
  then show ?thesis
    using assms(1) by auto
qed

lemma CSet_Contains_first_values:
  assumes "2147483648 < n" and "n < 4294967295"
  shows "CSet_Contains (first_values n) v = Some False"
proof -
  have un: "unat (Usage (first_values n)) = n"
    using assms(2) by (rule unat_first_values)
  then have nz: "Usage (first_values n) \<noteq> 0"
    using assms(1) by auto
  have "sint (Usage (first_values n) - 1) < 0"
    using assms(1) un by (intro sint_pred_usage_neg) simp
  then show ?thesis
    unfolding CSet_Contains_unfold [OF nz] by (rule contains_loop_empty)
qed




subsection \<open>Insert without spare capacity\<close>

lemma CSet_Insert_growth_step:
  assumes "proper s" and "Data s \<noteq> NULL" and "\<not> Usage s + 1 < Capacity s"
    and "unat (Capacity s) < 2147483648" and "\<forall>x \<in> set (elements s). x <s v"
    and "allocator malloc" and "malloc (unat (Capacity s * 2) * sizeof_int32_t) \<noteq> NULL"
  shows "\<exists>s'. CSet_Insert malloc s v = Some (True, s') \<and>
           unat (Capacity s') = max 1 (2 * unat (Capacity s)) \<and>
           unat (Usage s') = Suc (unat (Usage s)) \<and>
           elements s' = elements s @ [v] \<and>
           list_all (\<lambda>x. x = INT32_MIN) (drop (unat (Usage s')) (slots (Data s'))) \<and>
           proper s'"
proof -
  from assms(2,7) obtain xs ns where d: "Data s = Array xs"
    and m: "malloc (unat (Capacity s * 2) * sizeof_int32_t) = Array ns"
    by (cases "Data s"; cases "malloc (unat (Capacity s * 2) * sizeof_int32_t)") auto
  let ?n = "unat (Usage s)" and ?c = "unat (Capacity s)"
  have p: "0 < Capacity s" "length xs = ?c" "Usage s \<le> Capacity s"
    "\<And>a b. a < b \<Longrightarrow> b < ?n \<Longrightarrow> xs ! a <s xs ! b"
    using assms(1) d by (simp_all add: proper_Array_iff)
  have nc: "?n \<le> ?c"
    using p(3) by (simp add: word_le_nat_alt)
  have c0: "0 < ?c"
    using p(1) by (simp add: word_less_nat_alt)
  have c2: "unat (Capacity s * 2) = 2 * ?c"
    using assms(4) by (rule unat_double)
  have n1: "unat (Usage s + 1) = Suc ?n"
    using nc assms(4) by (simp add: unat_word_ariths)
  have len_ns: "length ns = unat (Capacity s * 2)"
    using allocator_length [OF assms(6) m] .
  have greater: "\<forall>k < ?n. xs ! k <s v"
  proof (intro allI impI)
    fix k assume "k < ?n"
    then have "xs ! k \<in> set (elements s)"
      using d nc p(2) by (auto simp: in_elements_iff)
    then show "xs ! k <s v"
      using assms(5) by blast
  qed
  from CSet_Insert_greatest_growth [where malloc = malloc, OF assms(1) d assms(3,4) m len_ns greater]
  obtain zs where zs: "CSet_Insert malloc s v
             = Some (True, s\<lparr>Capacity := Capacity s * 2, Data := Array zs, Usage := Usage s + 1\<rparr>)"
    "length zs = 2 * ?c"
    "\<forall>k < 2 * ?c. zs ! k = (if k < ?n then xs ! k else if k = ?n then v else INT32_MIN)"
    by blast
  let ?s' = "s\<lparr>Capacity := Capacity s * 2, Data := Array zs, Usage := Usage s + 1\<rparr>"
  have els: "elements ?s' = elements s @ [v]"
  proof (rule nth_equalityI)
    show "length (elements ?s') = length (elements s @ [v])"
      using zs(2) nc c0 d p(2) by (simp add: elements_def n1)
  next
    fix k assume "k < length (elements ?s')"
    then have k: "k < Suc ?n"
      by (simp add: elements_def n1)
    then have "zs ! k = (if k < ?n then xs ! k else v)"
      using zs(3) nc c0 by auto
    then show "elements ?s' ! k = (elements s @ [v]) ! k"
      using k d nc p(2) by (auto simp: elements_def n1 nth_append)
  qed
  have sorted: "zs ! a <s zs ! b" if "a < b" "b < Suc ?n" for a b
  proof -
    have "zs ! a = xs ! a" "zs ! b = (if b < ?n then xs ! b else v)"
      using zs(3) that nc c0 by auto
    then show ?thesis
      using that p(4) [of a b] greater by auto
  qed
  have tail: "zs ! k = INT32_MIN" if "Suc ?n \<le> k" "k < 2 * ?c" for k
    using zs(3) that by auto
  have proper': "proper ?s'"
    using zs(2) c0 c2 n1 nc sorted tail
    by (simp add: proper_Array_iff word_le_nat_alt word_less_nat_alt)
  have "list_all (\<lambda>x. x = INT32_MIN) (drop (unat (Usage ?s')) (slots (Data ?s')))"
    using tail zs(2) by (simp add: list_all_drop_nth n1)
  moreover have "unat (Capacity ?s') = max 1 (2 * ?c)"
    using c2 c0 by simp
  ultimately show ?thesis
    using zs(1) n1 els proper' by (intro exI [of _ ?s']) simp
qed


lemma CSet_Init_1:
  assumes "allocator malloc" and "malloc (unat (1 :: uint32_t) * sizeof_int32_t) \<noteq> NULL"
  shows "CSet_Init malloc (Some raw) 1
           = Some (True, Some (raw\<lparr>Capacity := 1, Usage := 0, Data := Array [INT32_MIN]\<rparr>))"
proof -
  obtain ns where m: "malloc (unat (1 :: uint32_t) * sizeof_int32_t) = Array ns"
    using assms(2) by (cases "malloc (unat (1 :: uint32_t) * sizeof_int32_t)") auto
  have "length ns = unat (1 :: uint32_t)"
    using allocator_length [OF assms(1) m] .
  then obtain a where ns: "ns = [a]"
    by (cases ns) auto
  have "init_fill (Array [a]) 1 0 = Some (Array [INT32_MIN])"
    by (simp add: init_fill.simps)
  then show ?thesis
    using m ns by (simp add: CSet_Init_def Let_def)
qed

lemma CSet_Init_0:
  "CSet_Init malloc (Some raw) 0
     = Some (True, Some (raw\<lparr>Capacity := 0, Usage := 0, Data := NULL\<rparr>))"
  by (simp add: CSet_Init_def Let_def init_fill.simps)

lemma two_ascending_inserts:
  assumes "allocator malloc" and "\<forall>n. malloc n \<noteq> NULL" and "v1 <s v2"
  shows "\<exists>s0 s1 s2.
           CSet_Init malloc (Some raw) 1 = Some (True, Some s0) \<and>
           CSet_Insert malloc s0 v1 = Some (True, s1) \<and>
           CSet_Insert malloc s1 v2 = Some (True, s2) \<and>
           elements s0 = [] \<and> elements s1 = [v1] \<and> elements s2 = [v1, v2] \<and>
           unat (Capacity s0) = 1 \<and> unat (Capacity s1) = 2 \<and> unat (Capacity s2) = 4 \<and>
           proper s0 \<and> proper s1 \<and> proper s2"
proof -
  let ?s0 = "raw\<lparr>Capacity := 1, Usage := 0, Data := Array [INT32_MIN]\<rparr>"
  have init: "CSet_Init malloc (Some raw) 1 = Some (True, Some ?s0)"
    using assms(1,2) by (intro CSet_Init_1) simp_all
  have p0: "proper ?s0" and e0: "elements ?s0 = []" and c0: "unat (Capacity ?s0) = 1"
    by (simp_all add: proper_def elements_def)
  have "\<exists>s'. CSet_Insert malloc ?s0 v1 = Some (True, s') \<and>
           unat (Capacity s') = max 1 (2 * unat (Capacity ?s0)) \<and>
           unat (Usage s') = Suc (unat (Usage ?s0)) \<and>
           elements s' = elements ?s0 @ [v1] \<and>
           list_all (\<lambda>x. x = INT32_MIN) (drop (unat (Usage s')) (slots (Data s'))) \<and>
           proper s'"
    using p0 assms(1,2) by (intro CSet_Insert_growth_step) (simp_all add: elements_def)
  then obtain s1 where s1: "CSet_Insert malloc ?s0 v1 = Some (True, s1)"
    "unat (Capacity s1) = 2" "unat (Usage s1) = 1" "elements s1 = [v1]" "proper s1"
    by (auto simp: elements_def)
  have d1: "Data s1 \<noteq> NULL"
    using s1(2,5) by (auto simp: proper_NULL_iff)
  have u1: "Usage s1 = 1" and cap1: "Capacity s1 = 2"
    using s1(2,3) by (simp_all add: word_unat_eq_iff)
  have "\<exists>s'. CSet_Insert malloc s1 v2 = Some (True, s') \<and>
           unat (Capacity s') = max 1 (2 * unat (Capacity s1)) \<and>
           unat (Usage s') = Suc (unat (Usage s1)) \<and>
           elements s' = elements s1 @ [v2] \<and>
           list_all (\<lambda>x. x = INT32_MIN) (drop (unat (Usage s')) (slots (Data s'))) \<and>
           proper s'"
    using s1(5) d1 assms by (intro CSet_Insert_growth_step) (simp_all add: u1 cap1 s1(4))
  then obtain s2 where s2: "CSet_Insert malloc s1 v2 = Some (True, s2)"
    "unat (Capacity s2) = 4" "elements s2 = [v1, v2]" "proper s2"
    by (auto simp: s1(2,4))
  show ?thesis
    using init p0 e0 c0 s1 s2 by blast
qed

lemma first_values_below:
  assumes "n < 4294967295"
  shows "\<forall>x \<in> set (elements (first_values n)). x <s word_of_int (int n - 2147483647)"
proof
  fix x assume "x \<in> set (elements (first_values n))"
  moreover have "unat (word_of_nat n :: uint32_t) = n"
    using assms by (simp add: unat_of_nat)
  ultimately obtain i where i: "i < n" "x = word_of_int (int i - 2147483647)"
    by (auto simp: elements_def first_values_def simp del: of_int_diff)
  have "i < 4294967295" "n < 4294967295"
    using i(1) assms by simp_all
  then have "sint (word_of_int (int i - 2147483647) :: int32_t) < sint (word_of_int (int n - 2147483647) :: int32_t)"
    using i(1) by (simp only: sint_first_value)
  then show "x <s word_of_int (int n - 2147483647)"
    unfolding i(2) by (simp only: word_sless_alt)
qed

lemma Insert_first_values_wraps:
  assumes "0 < n" and "n < 4294967295"
    and "(word_of_nat n :: uint32_t) * 2 = 0" and "(word_of_nat n :: uint32_t) + 1 \<noteq> 0"
    and "\<not> (word_of_nat n :: uint32_t) + 1 < word_of_nat n"
  shows "CSet_Insert malloc_7 (first_values n) (word_of_int (int n - 2147483647)) = None"
proof -
  let ?f = "\<lambda>k. word_of_int (int k - 2147483647) :: int32_t"
  let ?xs = "map ?f [0..<n]"
  let ?u = "word_of_nat n :: uint32_t"
  have un: "unat ?u = n"
    using assms(2) by (simp add: unat_of_nat)
  then have u0: "0 < ?u"
    using assms(1) by (simp add: word_less_nat_alt)
  have u1: "0 < ?u + 1"
    using assms(4) by (simp add: word_greater_zero_iff)
  have x0: "?xs ! 0 = ?f 0" and len: "0 < length ?xs"
    using assms(1) by (simp_all del: of_int_diff)
  have "sint (?f 0) < sint (?f n)"
    using assms(1,2) by (simp only: sint_first_value)
  then have lt: "?f 0 <s ?f n"
    by (simp only: word_sless_alt)
  have "insert_merge (Array ?xs) ?u (?f n) (Array []) 0 0 = None"
    using u0 u1 len lt unfolding x0 [symmetric]
    by (subst insert_merge.simps) (simp del: of_int_diff)
  moreover have "?u \<noteq> 0"
    using u0 by simp
  ultimately show ?thesis
    using assms(3,5)
    by (simp add: CSet_Insert_def Let_def first_values_def malloc_7_def del: of_int_diff)
qed


lemma Usage_first_values: "Usage (first_values n) = word_of_nat n"
  and Capacity_first_values: "Capacity (first_values n) = word_of_nat n"
  by (simp_all add: first_values_def)

subsection \<open>Symmetric difference when the capacities wrap around\<close>

lemma proper_empty_of_capacity:
  assumes "0 < n" and "n < 4294967296"
  shows "proper (empty_of_capacity n)"
proof -
  have "unat (word_of_nat n :: uint32_t) = n"
    using assms by (simp add: unat_of_nat)
  moreover have "(0 :: uint32_t) < word_of_nat n"
    using assms calculation by (simp add: word_less_nat_alt)
  ultimately show ?thesis
    by (simp add: proper_def empty_of_capacity_def list_all_iff)
qed

lemma sym_loop_no_room:
  assumes "0 < Usage A" and "Usage B = 0"
  shows "sym_loop A B (Array []) 0 0 0 = None"
  using assms
  by (subst sym_loop.simps) (simp split: bind_splits)

lemma CSet_SymDifference_capacity_wraps:
  assumes "Capacity (h pA) + Capacity (h pB) = 0" and "0 < Usage (h pA)" and "Usage (h pB) = 0"
  shows "CSet_SymDifference malloc_7 h pSym pA pB = None"
  using assms sym_loop_no_room [of "h pA" "h pB"]
  by (simp add: CSet_SymDifference_def Let_def malloc_7_def)

section \<open>Contains after a removal from a large set\<close>


section \<open>Remove is exact\<close>



section \<open>The subset test accepts sets that are not subsets\<close>

text \<open>
  Claim C1: for proper sets \<open>a\<close> and \<open>b\<close>, \<^verbatim>\<open>isSubsetOf(a, b)\<close> is true if and only if every
  element of \<open>a\<close> occurs in \<open>b\<close>. The loop advances \<^verbatim>\<open>a\<close>, not \<^verbatim>\<open>b\<close>, when the element of
  \<open>a\<close> is the greater one, so an element of \<open>a\<close> is passed over without having been found.
  For \<open>a = {3}\<close> and \<open>b = {1, 2}\<close>, both proper, the function returns true although 3 is not
  in \<open>b\<close>.
\<close>

theorem isSubsetOf_accepts_3_in_1_2:
  "proper \<lparr>Capacity = 2, Usage = 1, Data = Array [3, INT32_MIN]\<rparr> \<and>
   proper \<lparr>Capacity = 4, Usage = 2, Data = Array [1, 2, INT32_MIN, INT32_MIN]\<rparr> \<and>
   elements \<lparr>Capacity = 2, Usage = 1, Data = Array [3, INT32_MIN]\<rparr> = [3] \<and>
   elements \<lparr>Capacity = 4, Usage = 2, Data = Array [1, 2, INT32_MIN, INT32_MIN]\<rparr> = [1, 2] \<and>
   CSet_isSubsetOf \<lparr>Capacity = 2, Usage = 1, Data = Array [3, INT32_MIN]\<rparr>
                   \<lparr>Capacity = 4, Usage = 2, Data = Array [1, 2, INT32_MIN, INT32_MIN]\<rparr>
     = Some True"
  by code_simp

section \<open>Remove calls itself at most once\<close>

text \<open>
  Claim C10: on a proper set \<^verbatim>\<open>CSet_Remove\<close> terminates, and the call it makes to itself
  after the shift runs at most once. The function returns a result (the shifting loop, a
  partial function, included). Whenever the search finds the value at an index other than
  the last and the shift yields the array \<open>d\<close>, the value no longer occurs among the
  elements of the set handed to the inner call, whose search ends not-found: the inner call
  returns false, leaves that set as it is and makes no call of its own. Counting
  invocations, one call of \<^verbatim>\<open>CSet_Remove\<close> causes at most two, itself included.
\<close>

theorem CSet_Remove_recurses_at_most_once:
  assumes "proper s"
  shows "(\<exists>r. CSet_Remove s v = Some r) \<and>
         (\<forall>i d. remove_scan (Data s) (Usage s) v 0 = Some (True, i) \<and> i \<noteq> Usage s - 1 \<and>
                 remove_shift (Data s) (Usage s) i = Some d \<longrightarrow>
                   v \<notin> set (elements (s\<lparr>Data := d, Usage := Usage s - 1\<rparr>)) \<and>
                   remove_scan d (Usage s - 1) v 0 = Some (False, Usage s - 1) \<and>
                   CSet_Remove (s\<lparr>Data := d, Usage := Usage s - 1\<rparr>) v
                     = Some (False, s\<lparr>Data := d, Usage := Usage s - 1\<rparr>) \<and>
                   CSet_Remove_calls (s\<lparr>Data := d, Usage := Usage s - 1\<rparr>) v = Some 1) \<and>
         (\<exists>n. n \<le> 2 \<and> CSet_Remove_calls s v = Some n)"
proof (intro conjI allI impI)
  show "\<exists>r. CSet_Remove s v = Some r"
  proof (cases "v \<in> set (elements s)")
    case True
    from proper_present_index [OF assms True]
    obtain xs j where "Data s = Array xs" "j < Usage s" "xs ! unat j = v"
      by blast
    from CSet_Remove_present [OF assms this]
    show ?thesis
      by blast
  next
    case False
    then show ?thesis
      using CSet_Remove_absent [OF assms] by blast
  qed
next
  fix i d
  assume a: "remove_scan (Data s) (Usage s) v 0 = Some (True, i) \<and> i \<noteq> Usage s - 1 \<and>
             remove_shift (Data s) (Usage s) i = Some d"
  let ?s1 = "s\<lparr>Data := d, Usage := Usage s - 1\<rparr>"
  from a have i: "i < Usage s" and get: "array_get (Data s) (unat i) = Some v"
    using remove_scan_found by blast+
  from get obtain xs where xs: "Data s = Array xs" "xs ! unat i = v"
    by (cases "Data s") (auto split: if_splits)
  from remove_shift_then_absent [OF assms xs(1) i xs(2)] a xs(1)
  obtain ys where ys: "d = Array ys" "length ys = length xs"
    "\<forall>k < unat (Usage s) - 1. ys ! k \<noteq> v"
    "remove_scan (Array ys) (Usage s - 1) v 0 = Some (False, Usage s - 1)"
    by auto
  have pred: "unat (Usage s - 1) = unat (Usage s) - 1"
    using i by unat_arith
  have nl: "unat (Usage s) \<le> length xs"
    using assms xs(1) by (simp add: proper_Array_iff word_le_nat_alt)
  show "v \<notin> set (elements ?s1)"
    using ys(1-3) nl by (auto simp: elements_def pred in_set_conv_nth)
  show "remove_scan d (Usage s - 1) v 0 = Some (False, Usage s - 1)"
    using ys(1,4) by simp
  then show "CSet_Remove ?s1 v = Some (False, ?s1)"
    by (intro CSet_Remove_not_found [of _ _ "Usage s - 1"]) simp
  show "CSet_Remove_calls ?s1 v = Some 1"
    using ys(1,4) by (intro CSet_Remove_calls_not_found [of _ _ "Usage s - 1"]) simp
next
  show "\<exists>n. n \<le> 2 \<and> CSet_Remove_calls s v = Some n"
  proof (cases "v \<in> set (elements s)")
    case False
    then have "CSet_Remove_calls s v = Some 1"
      using remove_scan_proper_absent [OF assms] CSet_Remove_calls_not_found by blast
    then show ?thesis
      by simp
  next
    case True
    from proper_present_index [OF assms True]
    obtain xs j where xs: "Data s = Array xs" "j < Usage s" "xs ! unat j = v"
      by blast
    note scan = remove_scan_proper_present [OF assms xs]
    have nl: "unat (Usage s) \<le> length xs"
      using assms xs(1) by (simp add: proper_Array_iff word_le_nat_alt)
    have jn: "unat j < unat (Usage s)"
      using xs(2) by (simp add: word_less_nat_alt)
    have pred: "unat (Usage s - 1) = unat (Usage s) - 1"
      using xs(2) by unat_arith
    show ?thesis
    proof (cases "j = Usage s - 1")
      case True
      then have "CSet_Remove_calls s v = Some 1"
        using scan xs(1) jn nl by (subst CSet_Remove_calls.simps) simp
      then show ?thesis
        by simp
    next
      case False
      from remove_shift_then_absent [OF assms xs False]
      obtain ys where ys: "remove_shift (Array xs) (Usage s) j = Some (Array ys)"
        "length ys = length xs"
        "remove_scan (Array ys) (Usage s - 1) v 0 = Some (False, Usage s - 1)"
        by blast
      let ?s1 = "s\<lparr>Data := Array ys, Usage := Usage s - 1\<rparr>"
      have rec: "CSet_Remove ?s1 v = Some (False, ?s1)"
        using ys(3) by (intro CSet_Remove_not_found [of _ _ "Usage s - 1"]) simp
      have calls: "CSet_Remove_calls ?s1 v = Some 1"
        using ys(3) by (intro CSet_Remove_calls_not_found [of _ _ "Usage s - 1"]) simp
      have "CSet_Remove_calls s v = Some 2"
        using scan False xs(1) ys(1,2) rec calls jn nl pred
        by (subst CSet_Remove_calls.simps) simp
      then show ?thesis
        by simp
    qed
  qed
qed

theorem CSet_Remove_recurses_at_most_once_witness:
  "proper \<lparr>Capacity = 4, Usage = 3, Data = Array [1, 3, 5, INT32_MIN]\<rparr> \<and>
   remove_scan (Array [1, 3, 5, INT32_MIN]) 3 1 0 = Some (True, 0) \<and>
   remove_shift (Array [1, 3, 5, INT32_MIN]) 3 0 = Some (Array [3, 5, 5, INT32_MIN]) \<and>
   CSet_Remove \<lparr>Capacity = 4, Usage = 2, Data = Array [3, 5, 5, INT32_MIN]\<rparr> 1
     = Some (False, \<lparr>Capacity = 4, Usage = 2, Data = Array [3, 5, 5, INT32_MIN]\<rparr>) \<and>
   CSet_Remove_calls \<lparr>Capacity = 4, Usage = 3, Data = Array [1, 3, 5, INT32_MIN]\<rparr> 1 = Some 2"
proof -
  let ?s = "\<lparr>Capacity = 4, Usage = 3, Data = Array [1, 3, 5, INT32_MIN]\<rparr>"
  have p: "proper ?s"
    by code_simp
  have scan: "remove_scan (Data ?s) (Usage ?s) 1 0 = Some (True, 0)"
    by code_simp
  have shift: "remove_shift (Data ?s) (Usage ?s) 0 = Some (Array [3, 5, 5, INT32_MIN])"
    by code_simp
  have "(0 :: uint32_t) \<noteq> Usage ?s - 1"
    by simp
  with CSet_Remove_recurses_at_most_once [OF p, of 1] scan shift
  have "CSet_Remove (?s\<lparr>Data := Array [3, 5, 5, INT32_MIN], Usage := Usage ?s - 1\<rparr>) 1
          = Some (False, ?s\<lparr>Data := Array [3, 5, 5, INT32_MIN], Usage := Usage ?s - 1\<rparr>)"
    by blast
  moreover have "CSet_Remove_calls ?s 1 = Some 2"
    by code_simp
  ultimately show ?thesis
    using p scan shift by simp
qed

section \<open>Failed allocations leave the set as it was\<close>

text \<open>
  Claim C9: every operation that may allocate reports a failed allocation through its
  boolean result and leaves the receiving set exactly as it was; \<^verbatim>\<open>CSet_Init\<close> leaves the
  canonical empty set (capacity 0, usage 0, no array). For each of \<^verbatim>\<open>CSet_Init\<close>,
  \<^verbatim>\<open>CSet_Insert\<close> (growth path), \<^verbatim>\<open>CSet_Intersection\<close>, \<^verbatim>\<open>CSet_SymDifference\<close> and
  \<^verbatim>\<open>CSet_Copy\<close>: when the call to \<^verbatim>\<open>malloc\<close> the function makes returns \<^verbatim>\<open>NULL\<close>, the
  function returns false and the set (the store) is the one before the call. Moreover,
  whenever one of them returns false, for whatever reason, the set is unchanged (canonically
  empty for \<^verbatim>\<open>CSet_Init\<close>).
\<close>

theorem allocation_failure_atomic:
  "(0 < Sz \<and> malloc (unat Sz * sizeof_int32_t) = NULL \<longrightarrow>
      CSet_Init malloc (Some s0) Sz = Some (False, Some \<lparr>Capacity = 0, Usage = 0, Data = NULL\<rparr>)) \<and>
   (\<forall>r. CSet_Init malloc (Some s0) Sz = Some (False, r) \<longrightarrow>
      r = Some \<lparr>Capacity = 0, Usage = 0, Data = NULL\<rparr>) \<and>
   (Data s \<noteq> NULL \<and> \<not> Usage s + 1 < Capacity s \<and>
    malloc (unat ((if Capacity s \<le> 0 then 1 else Capacity s) * 2) * sizeof_int32_t) = NULL \<longrightarrow>
      CSet_Insert malloc s v = Some (False, s)) \<and>
   (\<forall>s'. CSet_Insert malloc s v = Some (False, s') \<longrightarrow> s' = s) \<and>
   (malloc (unat (if Capacity (h pB) < Capacity (h pA) then Capacity (h pB) else Capacity (h pA))
              * sizeof_int32_t) = NULL \<longrightarrow>
      CSet_Intersection malloc h pOut pA pB = Some (False, h)) \<and>
   (\<forall>h'. CSet_Intersection malloc h pOut pA pB = Some (False, h') \<longrightarrow> h' = h) \<and>
   (malloc (unat (Capacity (h pA) + Capacity (h pB)) * sizeof_int32_t) = NULL \<longrightarrow>
      CSet_SymDifference malloc h pOut pA pB = Some (False, h)) \<and>
   (\<forall>h'. CSet_SymDifference malloc h pOut pA pB = Some (False, h') \<longrightarrow> h' = h) \<and>
   (pTarget \<noteq> pSource \<and> malloc (unat (Capacity (h pSource)) * sizeof_int32_t) = NULL \<longrightarrow>
      CSet_Copy malloc h pTarget pSource = Some (False, h)) \<and>
   (\<forall>h'. CSet_Copy malloc h pTarget pSource = Some (False, h') \<longrightarrow> h' = h)"
proof (intro conjI allI impI)
  assume "0 < Sz \<and> malloc (unat Sz * sizeof_int32_t) = NULL"
  then show "CSet_Init malloc (Some s0) Sz = Some (False, Some \<lparr>Capacity = 0, Usage = 0, Data = NULL\<rparr>)"
    by (simp add: CSet_Init_def Let_def)
next
  fix r assume "CSet_Init malloc (Some s0) Sz = Some (False, r)"
  then show "r = Some \<lparr>Capacity = 0, Usage = 0, Data = NULL\<rparr>"
    using CSet_Init_False by fastforce
next
  assume "Data s \<noteq> NULL \<and> \<not> Usage s + 1 < Capacity s \<and>
    malloc (unat ((if Capacity s \<le> 0 then 1 else Capacity s) * 2) * sizeof_int32_t) = NULL"
  then show "CSet_Insert malloc s v = Some (False, s)"
    by (simp add: CSet_Insert_def Let_def)
next
  fix s' assume "CSet_Insert malloc s v = Some (False, s')"
  then show "s' = s"
    by (rule CSet_Insert_False_unchanged)
next
  assume "malloc (unat (if Capacity (h pB) < Capacity (h pA) then Capacity (h pB) else Capacity (h pA))
              * sizeof_int32_t) = NULL"
  then show "CSet_Intersection malloc h pOut pA pB = Some (False, h)"
    by (simp add: CSet_Intersection_def Let_def)
next
  fix h' assume "CSet_Intersection malloc h pOut pA pB = Some (False, h')"
  then show "h' = h"
    by (rule CSet_Intersection_False_unchanged)
next
  assume "malloc (unat (Capacity (h pA) + Capacity (h pB)) * sizeof_int32_t) = NULL"
  then show "CSet_SymDifference malloc h pOut pA pB = Some (False, h)"
    by (simp add: CSet_SymDifference_def Let_def)
next
  fix h' assume "CSet_SymDifference malloc h pOut pA pB = Some (False, h')"
  then show "h' = h"
    by (rule CSet_SymDifference_False_unchanged)
next
  assume "pTarget \<noteq> pSource \<and> malloc (unat (Capacity (h pSource)) * sizeof_int32_t) = NULL"
  then show "CSet_Copy malloc h pTarget pSource = Some (False, h)"
    by (cases "h pTarget") (auto simp: CSet_Copy_def Let_def)
next
  fix h' assume "CSet_Copy malloc h pTarget pSource = Some (False, h')"
  then show "h' = h"
    by (rule CSet_Copy_False_unchanged)
qed


theorem allocation_failure_atomic_witness:
  "CSet_Init malloc_fail (Some \<lparr>Capacity = 9, Usage = 9, Data = Array [4]\<rparr>) 3
     = Some (False, Some \<lparr>Capacity = 0, Usage = 0, Data = NULL\<rparr>) \<and>
   CSet_Insert malloc_fail \<lparr>Capacity = 2, Usage = 1, Data = Array [5, INT32_MIN]\<rparr> 8
     = Some (False, \<lparr>Capacity = 2, Usage = 1, Data = Array [5, INT32_MIN]\<rparr>) \<and>
   CSet_Intersection malloc_fail
       (\<lambda>p. \<lparr>Capacity = 2, Usage = 1, Data = Array [word_of_nat p, INT32_MIN]\<rparr>) 1 2 3
     = Some (False, \<lambda>p. \<lparr>Capacity = 2, Usage = 1, Data = Array [word_of_nat p, INT32_MIN]\<rparr>) \<and>
   CSet_SymDifference malloc_fail
       (\<lambda>p. \<lparr>Capacity = 2, Usage = 1, Data = Array [word_of_nat p, INT32_MIN]\<rparr>) 1 2 3
     = Some (False, \<lambda>p. \<lparr>Capacity = 2, Usage = 1, Data = Array [word_of_nat p, INT32_MIN]\<rparr>) \<and>
   CSet_Copy malloc_fail
       (\<lambda>p. \<lparr>Capacity = 2, Usage = 1, Data = Array [word_of_nat p, INT32_MIN]\<rparr>) 1 2
     = Some (False, \<lambda>p. \<lparr>Capacity = 2, Usage = 1, Data = Array [word_of_nat p, INT32_MIN]\<rparr>)"
proof -
  let ?h = "\<lambda>p :: nat. \<lparr>Capacity = 2, Usage = 1, Data = Array [word_of_nat p, INT32_MIN]\<rparr>"
  let ?s = "\<lparr>Capacity = 2, Usage = 1, Data = Array [5, INT32_MIN]\<rparr>"
  note inst = allocation_failure_atomic [where Sz = 3 and malloc = malloc_fail and s = ?s and v = 8
      and s0 = "\<lparr>Capacity = 9, Usage = 9, Data = Array [4]\<rparr>"
      and h = ?h and pOut = 1 and pA = 2 and pB = 3 and pTarget = 1 and pSource = 2]
  have "(0 :: uint32_t) < 3" "Data ?s \<noteq> NULL" "\<not> Usage ?s + 1 < Capacity ?s" "(1 :: nat) \<noteq> 2"
    by simp_all
  then show ?thesis
    using inst unfolding malloc_fail_def by blast
qed

section \<open>The growth path of Insert breaks the ordering\<close>

text \<open>
  Claim C2: after any sequence of insert and remove calls on a proper set the slots
  \<open>[0, Usage)\<close> are strictly ascending without duplicates and the set is proper; every
  successful insert adds one to the usage and keeps the set proper. The merge loop of the
  growth path does not advance \<^verbatim>\<open>j\<close> once it has written \<^verbatim>\<open>Value\<close>, so every later slot
  receives \<^verbatim>\<open>Value\<close> again. Initialising a set with capacity 1 and inserting 5 and then
  3 (both calls succeed) leaves the elements \<open>[3, 3]\<close>: not ascending, and not proper.
\<close>

theorem Insert_growth_breaks_sortedness:
  "CSet_Init malloc_7 (Some \<lparr>Capacity = 9, Usage = 9, Data = NULL\<rparr>) 1
     = Some (True, Some \<lparr>Capacity = 1, Usage = 0, Data = Array [INT32_MIN]\<rparr>) \<and>
   proper \<lparr>Capacity = 1, Usage = 0, Data = Array [INT32_MIN]\<rparr> \<and>
   CSet_Insert malloc_7 \<lparr>Capacity = 1, Usage = 0, Data = Array [INT32_MIN]\<rparr> 5
     = Some (True, \<lparr>Capacity = 2, Usage = 1, Data = Array [5, INT32_MIN]\<rparr>) \<and>
   proper \<lparr>Capacity = 2, Usage = 1, Data = Array [5, INT32_MIN]\<rparr> \<and>
   CSet_Insert malloc_7 \<lparr>Capacity = 2, Usage = 1, Data = Array [5, INT32_MIN]\<rparr> 3
     = Some (True, \<lparr>Capacity = 4, Usage = 2, Data = Array [3, 3, INT32_MIN, INT32_MIN]\<rparr>) \<and>
   elements \<lparr>Capacity = 4, Usage = 2, Data = Array [3, 3, INT32_MIN, INT32_MIN]\<rparr> = [3, 3] \<and>
   \<not> sorted_wrt (<s) (elements \<lparr>Capacity = 4, Usage = 2, Data = Array [3, 3, INT32_MIN, INT32_MIN]\<rparr>) \<and>
   \<not> proper \<lparr>Capacity = 4, Usage = 2, Data = Array [3, 3, INT32_MIN, INT32_MIN]\<rparr>"
  by code_simp

section \<open>The growth path of Insert accepts a value that is present\<close>

text \<open>
  Claim C3: inserting a value that is already in a proper set returns false and leaves the
  set unchanged, on the in-place path and on the growth path alike. The in-place path
  looks for the value and returns false; the growth path never compares for equality. On
  the proper set \<open>{5}\<close> with capacity 2 (the state after initialising with capacity 1 and
  inserting 5) a second insert of 5 takes the growth path, returns true, and leaves usage 2
  with the elements \<open>[5, 5]\<close>. With capacity 4 the same call takes the in-place path and
  returns false.
\<close>

theorem Insert_growth_accepts_duplicate:
  "proper \<lparr>Capacity = 2, Usage = 1, Data = Array [5, INT32_MIN]\<rparr> \<and>
   elements \<lparr>Capacity = 2, Usage = 1, Data = Array [5, INT32_MIN]\<rparr> = [5] \<and>
   CSet_Insert malloc_7 \<lparr>Capacity = 2, Usage = 1, Data = Array [5, INT32_MIN]\<rparr> 5
     = Some (True, \<lparr>Capacity = 4, Usage = 2, Data = Array [5, 5, INT32_MIN, INT32_MIN]\<rparr>) \<and>
   CSet_Insert malloc_7 \<lparr>Capacity = 4, Usage = 1, Data = Array [5, INT32_MIN, INT32_MIN, INT32_MIN]\<rparr> 5
     = Some (False, \<lparr>Capacity = 4, Usage = 1, Data = Array [5, INT32_MIN, INT32_MIN, INT32_MIN]\<rparr>)"
  by code_simp

section \<open>Insert on a set without spare capacity\<close>

text \<open>
  Claim C4: on a proper set without spare capacity, a set initialised with capacity 0 or 1
  included, inserting a new value succeeds when the allocation does, and the new capacity
  is \<open>max(1, 2 * capacity)\<close>, the old elements are preserved and the value is added in
  sorted position. Three inputs on which this fails. A set initialised with capacity 0 has
  no array, and \<^verbatim>\<open>CSet_Insert\<close> starts with
  \<^verbatim>\<open>if (pSet->Data == NULL) return false;\<close>: on that set every insert returns false and
  changes nothing. On the proper set of the \<open>2^31\<close> values from \<open>-2147483647\<close> to 0, whose
  capacity is \<open>2^31\<close>, the new capacity \<^verbatim>\<open>capacity * 2\<close> wraps around to 0 in
  \<^verbatim>\<open>uint32_t\<close>: inserting 1 writes beyond a block of 0 bytes, which is undefined behaviour.
  On the proper set \<open>{5}\<close> with capacity 2, inserting 2, which is not greater than every
  element, returns true and leaves the slots \<open>2, 2\<close>: the element 5 is lost and the set is
  not proper.
\<close>

theorem Insert_fails_without_spare_capacity:
  "CSet_Init malloc_7 (Some \<lparr>Capacity = 9, Usage = 9, Data = Array [4]\<rparr>) 0
     = Some (True, Some \<lparr>Capacity = 0, Usage = 0, Data = NULL\<rparr>) \<and>
   proper \<lparr>Capacity = 0, Usage = 0, Data = NULL\<rparr> \<and>
   \<not> Usage \<lparr>Capacity = 0, Usage = 0, Data = NULL\<rparr> + 1 < Capacity \<lparr>Capacity = 0, Usage = 0, Data = NULL\<rparr> \<and>
   elements \<lparr>Capacity = 0, Usage = 0, Data = NULL\<rparr> = [] \<and>
   malloc_7 (unat ((1 :: uint32_t) * 2) * sizeof_int32_t) \<noteq> NULL \<and>
   CSet_Insert malloc_7 \<lparr>Capacity = 0, Usage = 0, Data = NULL\<rparr> 1
     = Some (False, \<lparr>Capacity = 0, Usage = 0, Data = NULL\<rparr>) \<and>
   proper (first_values 2147483648) \<and>
   \<not> Usage (first_values 2147483648) + 1 < Capacity (first_values 2147483648) \<and>
   1 \<notin> set (elements (first_values 2147483648)) \<and>
   malloc_7 (unat (Capacity (first_values 2147483648) * 2) * sizeof_int32_t) \<noteq> NULL \<and>
   CSet_Insert malloc_7 (first_values 2147483648) 1 = None \<and>
   proper \<lparr>Capacity = 2, Usage = 1, Data = Array [5, INT32_MIN]\<rparr> \<and>
   \<not> Usage \<lparr>Capacity = 2, Usage = 1, Data = Array [5, INT32_MIN]\<rparr> + 1
       < Capacity \<lparr>Capacity = 2, Usage = 1, Data = Array [5, INT32_MIN]\<rparr> \<and>
   2 \<notin> set (elements \<lparr>Capacity = 2, Usage = 1, Data = Array [5, INT32_MIN]\<rparr>) \<and>
   CSet_Insert malloc_7 \<lparr>Capacity = 2, Usage = 1, Data = Array [5, INT32_MIN]\<rparr> 2
     = Some (True, \<lparr>Capacity = 4, Usage = 2, Data = Array [2, 2, INT32_MIN, INT32_MIN]\<rparr>) \<and>
   5 \<notin> set (elements \<lparr>Capacity = 4, Usage = 2, Data = Array [2, 2, INT32_MIN, INT32_MIN]\<rparr>) \<and>
   \<not> proper \<lparr>Capacity = 4, Usage = 2, Data = Array [2, 2, INT32_MIN, INT32_MIN]\<rparr>"
proof -
  let ?e = "\<lparr>Capacity = 0, Usage = 0, Data = NULL\<rparr>"
  let ?s = "\<lparr>Capacity = 2, Usage = 1, Data = Array [5, INT32_MIN]\<rparr>"
  let ?t = "\<lparr>Capacity = 4, Usage = 2, Data = Array [2, 2, INT32_MIN, INT32_MIN]\<rparr>"
  have "proper ?s" "\<not> Usage ?s + 1 < Capacity ?s" "2 \<notin> set (elements ?s)"
    "CSet_Insert malloc_7 ?s 2 = Some (True, ?t)" "5 \<notin> set (elements ?t)" "\<not> proper ?t"
    by code_simp+
  moreover
  have "CSet_Init malloc_7 (Some \<lparr>Capacity = 9, Usage = 9, Data = Array [4]\<rparr>) 0 = Some (True, Some ?e)"
    "proper ?e" "\<not> Usage ?e + 1 < Capacity ?e" "elements ?e = []"
    "malloc_7 (unat ((1 :: uint32_t) * 2) * sizeof_int32_t) \<noteq> NULL"
    "CSet_Insert malloc_7 ?e 1 = Some (False, ?e)"
    by code_simp+
  moreover have "proper (first_values 2147483648)"
    by (rule proper_first_values) simp_all
  moreover have "\<not> Usage (first_values 2147483648) + 1 < Capacity (first_values 2147483648)"
    by (simp add: Usage_first_values Capacity_first_values)
  moreover have "1 \<notin> set (elements (first_values 2147483648))"
    using first_values_below [of 2147483648] by auto
  moreover have "malloc_7 (unat (Capacity (first_values 2147483648) * 2) * sizeof_int32_t) \<noteq> NULL"
    by (simp add: malloc_7_def)
  moreover have "CSet_Insert malloc_7 (first_values 2147483648) 1 = None"
    using Insert_first_values_wraps [of 2147483648] by simp
  ultimately show ?thesis
    by blast
qed

text \<open>
  Claim C4 as amended. (1) On a set without an array (capacity 0) \<^verbatim>\<open>CSet_Insert\<close> returns
  false and changes nothing. (2) On a proper set with an array and no spare capacity
  (\<^verbatim>\<open>Usage + 1 < Capacity\<close> is false), with a capacity below \<open>2^31\<close>, inserting a value
  greater than every element succeeds when the allocation does: the capacity doubles (which
  is \<open>max(1, 2 * capacity)\<close>, the capacity being positive), the usage grows by one, the
  elements are the old ones followed by the value, the tail holds \<open>INT32_MIN\<close> and the set
  is proper. (3) Inserting capacity + 1 = 2 ascending values into a set initialised with
  capacity 1, with every allocation succeeding: the initialisation and both inserts
  succeed; the set is empty, then holds the first value, then exactly the two values in
  order; its capacity is 1, then 2, then 4; and it is proper at each stage. (4) A set
  initialised with capacity 0 is proper and empty, and an insert returns false and leaves
  it so. What the growth path does with a value that is not greater than every element is
  not part of the statement.
\<close>

theorem Insert_growth_of_greatest:
  "(Data s = NULL \<longrightarrow> CSet_Insert malloc s v = Some (False, s)) \<and>
   (proper s \<and> Data s \<noteq> NULL \<and> \<not> Usage s + 1 < Capacity s \<and>
    unat (Capacity s) < 2147483648 \<and> (\<forall>x \<in> set (elements s). x <s v) \<and>
    allocator malloc \<and> malloc (unat (Capacity s * 2) * sizeof_int32_t) \<noteq> NULL \<longrightarrow>
      (\<exists>s'. CSet_Insert malloc s v = Some (True, s') \<and>
            unat (Capacity s') = max 1 (2 * unat (Capacity s)) \<and>
            unat (Usage s') = Suc (unat (Usage s)) \<and>
            elements s' = elements s @ [v] \<and>
            list_all (\<lambda>x. x = INT32_MIN) (drop (unat (Usage s')) (slots (Data s'))) \<and>
            proper s')) \<and>
   (allocator malloc \<and> (\<forall>n. malloc n \<noteq> NULL) \<and> v1 <s v2 \<longrightarrow>
      (\<exists>s0 s1 s2.
          CSet_Init malloc (Some raw) 1 = Some (True, Some s0) \<and>
          CSet_Insert malloc s0 v1 = Some (True, s1) \<and>
          CSet_Insert malloc s1 v2 = Some (True, s2) \<and>
          elements s0 = [] \<and> elements s1 = [v1] \<and> elements s2 = [v1, v2] \<and>
          unat (Capacity s0) = 1 \<and> unat (Capacity s1) = 2 \<and> unat (Capacity s2) = 4 \<and>
          proper s0 \<and> proper s1 \<and> proper s2)) \<and>
   (\<exists>e. CSet_Init malloc (Some raw) 0 = Some (True, Some e) \<and> proper e \<and> elements e = [] \<and>
        CSet_Insert malloc e v = Some (False, e))"
proof (intro conjI impI)
  assume "Data s = NULL"
  then show "CSet_Insert malloc s v = Some (False, s)"
    by (simp add: CSet_Insert_def)
next
  assume "proper s \<and> Data s \<noteq> NULL \<and> \<not> Usage s + 1 < Capacity s \<and>
    unat (Capacity s) < 2147483648 \<and> (\<forall>x \<in> set (elements s). x <s v) \<and>
    allocator malloc \<and> malloc (unat (Capacity s * 2) * sizeof_int32_t) \<noteq> NULL"
  then show "\<exists>s'. CSet_Insert malloc s v = Some (True, s') \<and>
            unat (Capacity s') = max 1 (2 * unat (Capacity s)) \<and>
            unat (Usage s') = Suc (unat (Usage s)) \<and>
            elements s' = elements s @ [v] \<and>
            list_all (\<lambda>x. x = INT32_MIN) (drop (unat (Usage s')) (slots (Data s'))) \<and>
            proper s'"
    by (intro CSet_Insert_growth_step) blast+
next
  assume "allocator malloc \<and> (\<forall>n. malloc n \<noteq> NULL) \<and> v1 <s v2"
  then show "\<exists>s0 s1 s2.
          CSet_Init malloc (Some raw) 1 = Some (True, Some s0) \<and>
          CSet_Insert malloc s0 v1 = Some (True, s1) \<and>
          CSet_Insert malloc s1 v2 = Some (True, s2) \<and>
          elements s0 = [] \<and> elements s1 = [v1] \<and> elements s2 = [v1, v2] \<and>
          unat (Capacity s0) = 1 \<and> unat (Capacity s1) = 2 \<and> unat (Capacity s2) = 4 \<and>
          proper s0 \<and> proper s1 \<and> proper s2"
    by (intro two_ascending_inserts) blast+
next
  let ?e = "raw\<lparr>Capacity := 0, Usage := 0, Data := NULL\<rparr>"
  have "CSet_Init malloc (Some raw) 0 = Some (True, Some ?e)"
    by (rule CSet_Init_0)
  moreover have "proper ?e" "elements ?e = []" "CSet_Insert malloc ?e v = Some (False, ?e)"
    by (simp_all add: proper_def elements_def CSet_Insert_def)
  ultimately show "\<exists>e. CSet_Init malloc (Some raw) 0 = Some (True, Some e) \<and> proper e \<and>
        elements e = [] \<and> CSet_Insert malloc e v = Some (False, e)"
    by blast
qed

theorem Insert_growth_of_greatest_witness:
  "proper \<lparr>Capacity = 2, Usage = 1, Data = Array [5, INT32_MIN]\<rparr> \<and>
   allocator malloc_7 \<and>
   (\<exists>s'. CSet_Insert malloc_7 \<lparr>Capacity = 2, Usage = 1, Data = Array [5, INT32_MIN]\<rparr> 8 = Some (True, s') \<and>
         unat (Capacity s') = 4 \<and> unat (Usage s') = 2 \<and> elements s' = [5, 8] \<and> proper s') \<and>
   CSet_Insert malloc_7 \<lparr>Capacity = 0, Usage = 0, Data = NULL\<rparr> 8
     = Some (False, \<lparr>Capacity = 0, Usage = 0, Data = NULL\<rparr>) \<and>
   (\<exists>s0 s1 s2.
       CSet_Init malloc_7 (Some \<lparr>Capacity = 0, Usage = 0, Data = NULL\<rparr>) 1 = Some (True, Some s0) \<and>
       CSet_Insert malloc_7 s0 3 = Some (True, s1) \<and>
       CSet_Insert malloc_7 s1 4 = Some (True, s2) \<and>
       elements s2 = [3, 4] \<and> proper s2)"
proof -
  let ?s = "\<lparr>Capacity = 2, Usage = 1, Data = Array [5, INT32_MIN]\<rparr>"
  let ?e = "\<lparr>Capacity = 0, Usage = 0, Data = NULL\<rparr>"
  note inst = Insert_growth_of_greatest [where s = ?s and v = 8 and malloc = malloc_7
      and ?v1.0 = 3 and ?v2.0 = 4 and raw = ?e]
  note inst_e = Insert_growth_of_greatest [where s = ?e and v = 8 and malloc = malloc_7
      and ?v1.0 = 3 and ?v2.0 = 4 and raw = ?e]
  have p: "proper ?s"
    by code_simp
  have hyp: "Data ?s \<noteq> NULL" "\<not> Usage ?s + 1 < Capacity ?s" "unat (Capacity ?s) < 2147483648"
    "\<forall>x \<in> set (elements ?s). x <s 8"
    "malloc_7 (unat (Capacity ?s * 2) * sizeof_int32_t) \<noteq> NULL"
    "\<forall>n. malloc_7 n \<noteq> NULL" "(3 :: int32_t) <s 4" "Data ?e = NULL"
    by (simp_all add: elements_def malloc_7_def)
  have e: "elements ?s = [5]"
    by (simp add: elements_def)
  from inst p hyp allocator_malloc_7
  obtain s' where "CSet_Insert malloc_7 ?s 8 = Some (True, s')"
    "unat (Capacity s') = max 1 (2 * unat (Capacity ?s))" "unat (Usage s') = Suc (unat (Usage ?s))"
    "elements s' = elements ?s @ [8]" "proper s'"
    by blast
  then have a: "\<exists>s'. CSet_Insert malloc_7 ?s 8 = Some (True, s') \<and>
         unat (Capacity s') = 4 \<and> unat (Usage s') = 2 \<and> elements s' = [5, 8] \<and> proper s'"
    unfolding e by (intro exI [of _ s']) simp
  have b: "CSet_Insert malloc_7 ?e 8 = Some (False, ?e)"
    using inst_e hyp(8) by blast
  from inst hyp(6,7) allocator_malloc_7
  obtain s0 s1 s2 where "CSet_Init malloc_7 (Some ?e) 1 = Some (True, Some s0)"
    "CSet_Insert malloc_7 s0 3 = Some (True, s1)" "CSet_Insert malloc_7 s1 4 = Some (True, s2)"
    "elements s2 = [3, 4]" "proper s2"
    by blast
  then have c: "\<exists>s0 s1 s2.
       CSet_Init malloc_7 (Some ?e) 1 = Some (True, Some s0) \<and>
       CSet_Insert malloc_7 s0 3 = Some (True, s1) \<and>
       CSet_Insert malloc_7 s1 4 = Some (True, s2) \<and>
       elements s2 = [3, 4] \<and> proper s2"
    by blast
  show ?thesis
    using p allocator_malloc_7 a b c by blast
qed

section \<open>The binary search on a large set\<close>

text \<open>
  Claim C6: on every proper set \<^verbatim>\<open>contains(v)\<close> is true if and only if \<open>v\<close> is among the
  elements. \<^verbatim>\<open>CSet_Contains\<close> keeps its bounds in \<^verbatim>\<open>int32_t\<close> variables, while a set may
  hold up to \<^verbatim>\<open>UINT32_MAX\<close> elements (the comment at the head of \<^verbatim>\<open>samt5.c\<close>). On the
  proper set of the \<open>2^31 + 1\<close> values from \<open>-2147483647\<close> to \<open>1\<close> the initial
  \<^verbatim>\<open>max = pSet->Usage - 1\<close> is \<open>2^31\<close>, which as an \<^verbatim>\<open>int32_t\<close> is negative: the loop is
  not entered and the function returns false for the element \<open>-2147483646\<close>.
\<close>

theorem CSet_Contains_misses_element_of_large_set:
  "proper (first_values 2147483649) \<and>
   - 2147483646 \<in> set (elements (first_values 2147483649)) \<and>
   CSet_Contains (first_values 2147483649) (- 2147483646) = Some False"
proof (intro conjI)
  show "proper (first_values 2147483649)"
    by (rule proper_first_values) simp_all
  show "- 2147483646 \<in> set (elements (first_values 2147483649))"
    using first_values_member [of 1 2147483649] by simp
  show "CSet_Contains (first_values 2147483649) (- 2147483646) = Some False"
    by (rule CSet_Contains_first_values) simp_all
qed

section \<open>Intersection with a set of capacity 0\<close>

text \<open>
  Claim C7: for all proper sets \<open>a\<close>, \<open>b\<close> and \<open>out\<close>, \<^verbatim>\<open>CSet_Intersection\<close>, when the
  allocation succeeds, returns true and leaves \<open>out\<close> proper, with the capacity
  \<open>min(a.capacity, b.capacity)\<close>. A failing input: \<open>a\<close> is the empty set of capacity 0 (no
  array, as \<^verbatim>\<open>CSet_Init\<close> leaves it for \<^verbatim>\<open>Sz == 0\<close>), \<open>b\<close> is the set \<open>{1, 2}\<close> with
  capacity 4 and \<open>out\<close> is the set \<open>{7}\<close> with capacity 2; all three are proper. The
  function calls \<^verbatim>\<open>malloc(0)\<close>. Where that returns a block (of no slots), the function
  returns true and leaves \<open>out\<close> with capacity 0 and an array, which is not proper: a
  set of capacity 0 has no array. Where \<^verbatim>\<open>malloc(0)\<close> returns \<^verbatim>\<open>NULL\<close>, the function
  returns false and leaves \<open>out\<close> as it was, the set \<open>{7}\<close>, which is not the intersection.
\<close>

theorem Intersection_capacity_0_not_proper:
  "proper \<lparr>Capacity = 2, Usage = 1, Data = Array [7, INT32_MIN]\<rparr> \<and>
   proper \<lparr>Capacity = 0, Usage = 0, Data = NULL\<rparr> \<and>
   proper \<lparr>Capacity = 4, Usage = 2, Data = Array [1, 2, INT32_MIN, INT32_MIN]\<rparr> \<and>
   malloc_7 0 \<noteq> NULL \<and>
   map_option (\<lambda>(r, h). (r, h 1, h 2, h 3))
     (CSet_Intersection malloc_7
        ((\<lambda>p. \<lparr>Capacity = 0, Usage = 0, Data = NULL\<rparr>)
           (1 := \<lparr>Capacity = 2, Usage = 1, Data = Array [7, INT32_MIN]\<rparr>,
            3 := \<lparr>Capacity = 4, Usage = 2, Data = Array [1, 2, INT32_MIN, INT32_MIN]\<rparr>)) 1 2 3)
     = Some (True,
             \<lparr>Capacity = 0, Usage = 0, Data = Array []\<rparr>,
             \<lparr>Capacity = 0, Usage = 0, Data = NULL\<rparr>,
             \<lparr>Capacity = 4, Usage = 2, Data = Array [1, 2, INT32_MIN, INT32_MIN]\<rparr>) \<and>
   \<not> proper \<lparr>Capacity = 0, Usage = 0, Data = Array []\<rparr> \<and>
   map_option (\<lambda>(r, h). (r, h 1, h 2, h 3))
     (CSet_Intersection (\<lambda>n. if n = 0 then NULL else malloc_7 n)
        ((\<lambda>p. \<lparr>Capacity = 0, Usage = 0, Data = NULL\<rparr>)
           (1 := \<lparr>Capacity = 2, Usage = 1, Data = Array [7, INT32_MIN]\<rparr>,
            3 := \<lparr>Capacity = 4, Usage = 2, Data = Array [1, 2, INT32_MIN, INT32_MIN]\<rparr>)) 1 2 3)
     = Some (False,
             \<lparr>Capacity = 2, Usage = 1, Data = Array [7, INT32_MIN]\<rparr>,
             \<lparr>Capacity = 0, Usage = 0, Data = NULL\<rparr>,
             \<lparr>Capacity = 4, Usage = 2, Data = Array [1, 2, INT32_MIN, INT32_MIN]\<rparr>)"
  by code_simp

section \<open>Symmetric difference of sets whose capacities add up to 0\<close>

text \<open>
  Claim C8: for all proper sets \<open>a\<close>, \<open>b\<close> and \<open>out\<close>, \<^verbatim>\<open>CSet_SymDifference\<close>, when the
  allocation succeeds, returns true and leaves \<open>out\<close> proper, with the capacity
  \<open>a.capacity + b.capacity\<close>. Two failing inputs. With \<open>a\<close> and \<open>b\<close> both the empty set of
  capacity 0 and \<open>out\<close> the set \<open>{7}\<close> with capacity 2, the function calls \<^verbatim>\<open>malloc(0)\<close>;
  where that returns a block, the function returns true and leaves \<open>out\<close> with capacity 0
  and an array, which is not proper; where it returns \<^verbatim>\<open>NULL\<close>, the function returns false
  and leaves \<open>out\<close> the set \<open>{7}\<close>. With \<open>a\<close> the set of the \<open>2^31\<close> values from
  \<open>-2147483647\<close> to 0 and \<open>b\<close> the empty set of capacity \<open>2^31\<close>, the sum of the capacities
  wraps around to 0 in \<^verbatim>\<open>uint32_t\<close>, and the first element of \<open>a\<close> is written beyond a block
  of 0 bytes: undefined behaviour. On the sets \<open>{1, 2, 3}\<close> and \<open>{2, 3, 4}\<close> of the claim's
  example the result is \<open>{1, 4}\<close>, with capacity 8, and proper.
\<close>

theorem SymDifference_capacity_0_not_proper:
  "proper \<lparr>Capacity = 2, Usage = 1, Data = Array [7, INT32_MIN]\<rparr> \<and>
   proper \<lparr>Capacity = 0, Usage = 0, Data = NULL\<rparr> \<and>
   malloc_7 0 \<noteq> NULL \<and>
   map_option (\<lambda>(r, h). (r, h 1, h 2, h 3))
     (CSet_SymDifference malloc_7
        ((\<lambda>p. \<lparr>Capacity = 0, Usage = 0, Data = NULL\<rparr>)
           (1 := \<lparr>Capacity = 2, Usage = 1, Data = Array [7, INT32_MIN]\<rparr>)) 1 2 3)
     = Some (True,
             \<lparr>Capacity = 0, Usage = 0, Data = Array []\<rparr>,
             \<lparr>Capacity = 0, Usage = 0, Data = NULL\<rparr>,
             \<lparr>Capacity = 0, Usage = 0, Data = NULL\<rparr>) \<and>
   \<not> proper \<lparr>Capacity = 0, Usage = 0, Data = Array []\<rparr> \<and>
   map_option (\<lambda>(r, h). (r, h 1, h 2, h 3))
     (CSet_SymDifference (\<lambda>n. if n = 0 then NULL else malloc_7 n)
        ((\<lambda>p. \<lparr>Capacity = 0, Usage = 0, Data = NULL\<rparr>)
           (1 := \<lparr>Capacity = 2, Usage = 1, Data = Array [7, INT32_MIN]\<rparr>)) 1 2 3)
     = Some (False,
             \<lparr>Capacity = 2, Usage = 1, Data = Array [7, INT32_MIN]\<rparr>,
             \<lparr>Capacity = 0, Usage = 0, Data = NULL\<rparr>,
             \<lparr>Capacity = 0, Usage = 0, Data = NULL\<rparr>) \<and>
   proper (first_values 2147483648) \<and>
   proper (empty_of_capacity 2147483648) \<and>
   CSet_SymDifference malloc_7
     ((\<lambda>p. \<lparr>Capacity = 0, Usage = 0, Data = NULL\<rparr>)
        (2 := first_values 2147483648, 3 := empty_of_capacity 2147483648)) 1 2 3 = None \<and>
   map_option (\<lambda>(r, h). (r, h 1, proper (h 1), elements (h 1)))
     (CSet_SymDifference malloc_7
        ((\<lambda>p. \<lparr>Capacity = 0, Usage = 0, Data = NULL\<rparr>)
           (2 := \<lparr>Capacity = 4, Usage = 3, Data = Array [1, 2, 3, INT32_MIN]\<rparr>,
            3 := \<lparr>Capacity = 4, Usage = 3, Data = Array [2, 3, 4, INT32_MIN]\<rparr>)) 1 2 3)
     = Some (True,
             \<lparr>Capacity = 8, Usage = 2,
              Data = Array [1, 4, INT32_MIN, INT32_MIN, INT32_MIN, INT32_MIN, INT32_MIN, INT32_MIN]\<rparr>,
             True, [1, 4])"
proof -
  let ?e = "\<lparr>Capacity = 0, Usage = 0, Data = NULL\<rparr>"
  let ?o = "\<lparr>Capacity = 2, Usage = 1, Data = Array [7, INT32_MIN]\<rparr>"
  have 1: "proper ?o" "proper ?e" "malloc_7 0 \<noteq> NULL"
    "\<not> proper \<lparr>Capacity = 0, Usage = 0, Data = Array []\<rparr>"
    by code_simp+
  have 2: "map_option (\<lambda>(r, h). (r, h 1, h 2, h 3))
     (CSet_SymDifference malloc_7 ((\<lambda>p. ?e)(1 := ?o)) 1 2 3)
     = Some (True, \<lparr>Capacity = 0, Usage = 0, Data = Array []\<rparr>, ?e, ?e)"
    by code_simp
  have 3: "map_option (\<lambda>(r, h). (r, h 1, h 2, h 3))
     (CSet_SymDifference (\<lambda>n. if n = 0 then NULL else malloc_7 n) ((\<lambda>p. ?e)(1 := ?o)) 1 2 3)
     = Some (False, ?o, ?e, ?e)"
    by code_simp
  have 4: "proper (first_values 2147483648)"
    by (rule proper_first_values) simp_all
  have 5: "proper (empty_of_capacity 2147483648)"
    by (rule proper_empty_of_capacity) simp_all
  have 6: "CSet_SymDifference malloc_7
     ((\<lambda>p. ?e)(2 := first_values 2147483648, 3 := empty_of_capacity 2147483648)) 1 2 3 = None"
    by (rule CSet_SymDifference_capacity_wraps)
       (simp_all add: first_values_def empty_of_capacity_def)
  have 7: "map_option (\<lambda>(r, h). (r, h 1, proper (h 1), elements (h 1)))
     (CSet_SymDifference malloc_7
        ((\<lambda>p. ?e)
           (2 := \<lparr>Capacity = 4, Usage = 3, Data = Array [1, 2, 3, INT32_MIN]\<rparr>,
            3 := \<lparr>Capacity = 4, Usage = 3, Data = Array [2, 3, 4, INT32_MIN]\<rparr>)) 1 2 3)
     = Some (True,
             \<lparr>Capacity = 8, Usage = 2,
              Data = Array [1, 4, INT32_MIN, INT32_MIN, INT32_MIN, INT32_MIN, INT32_MIN, INT32_MIN]\<rparr>,
             True, [1, 4])"
    by code_simp
  from 1 2 3 4 5 6 7 show ?thesis
    by (intro conjI)
qed

end
